theory Spec2Isabelle
  imports Complex_Main "HOL-Library.Sublist"
begin

section \<open>Strings\<close>

text \<open>
  The log file is UTF-8 text, and a \<^typ>\<open>string\<close> here is the sequence of its bytes.
  The string operations the program uses (\<^verbatim>\<open>split("\n")\<close>, \<^verbatim>\<open>split(" ")\<close>,
  \<^verbatim>\<open>includes("[ERROR]")\<close>, \<^verbatim>\<open>trim()\<close>, concatenation) act on these bytes as they act on
  the decoded text: their separators and patterns are ASCII, and the white space that
  \<^verbatim>\<open>trim\<close> removes is listed below with its UTF-8 encodings.
\<close>

abbreviation LF :: char where "LF \<equiv> CHR 0x0A"

text \<open>\<^verbatim>\<open>s.split(sep)\<close> for a separator of one character: always at least one piece.\<close>

fun split_str :: "string \<Rightarrow> char \<Rightarrow> string list" where
  "split_str [] sep = [[]]"
| "split_str (c # cs) sep =
     (if c = sep then [] # split_str cs sep
      else (case split_str cs sep of
              x # xs \<Rightarrow> (c # x) # xs
            | [] \<Rightarrow> [[c]]))"

text \<open>\<^verbatim>\<open>s.includes(p)\<close>: \<open>p\<close> occurs in \<open>s\<close> as a contiguous substring.\<close>

fun includes_str :: "string \<Rightarrow> string \<Rightarrow> bool" where
  "includes_str [] p = (p = [])"
| "includes_str (c # cs) p = (prefix p (c # cs) \<or> includes_str cs p)"

text \<open>
  The white space of ECMAScript (WhiteSpace and LineTerminator), each code point in UTF-8:
  U+0009 to U+000D, U+0020, U+00A0, U+1680, U+2000 to U+200A, U+2028, U+2029, U+202F,
  U+205F, U+3000 and U+FEFF.
\<close>

definition whiteSpace :: "string list" where
  "whiteSpace =
     [[CHR 0x09], [CHR 0x0A], [CHR 0x0B], [CHR 0x0C], [CHR 0x0D], [CHR 0x20],
      [CHR 0xC2, CHR 0xA0],
      [CHR 0xE1, CHR 0x9A, CHR 0x80],
      [CHR 0xE2, CHR 0x80, CHR 0x80], [CHR 0xE2, CHR 0x80, CHR 0x81],
      [CHR 0xE2, CHR 0x80, CHR 0x82], [CHR 0xE2, CHR 0x80, CHR 0x83],
      [CHR 0xE2, CHR 0x80, CHR 0x84], [CHR 0xE2, CHR 0x80, CHR 0x85],
      [CHR 0xE2, CHR 0x80, CHR 0x86], [CHR 0xE2, CHR 0x80, CHR 0x87],
      [CHR 0xE2, CHR 0x80, CHR 0x88], [CHR 0xE2, CHR 0x80, CHR 0x89],
      [CHR 0xE2, CHR 0x80, CHR 0x8A],
      [CHR 0xE2, CHR 0x80, CHR 0xA8], [CHR 0xE2, CHR 0x80, CHR 0xA9],
      [CHR 0xE2, CHR 0x80, CHR 0xAF],
      [CHR 0xE2, CHR 0x81, CHR 0x9F],
      [CHR 0xE3, CHR 0x80, CHR 0x80],
      [CHR 0xEF, CHR 0xBB, CHR 0xBF]]"

text \<open>The number of bytes of the white space character a string starts (ends) with, 0 if none.\<close>

definition wsPrefix :: "string \<Rightarrow> nat" where
  "wsPrefix s = (case find (\<lambda>p. prefix p s) whiteSpace of None \<Rightarrow> 0 | Some p \<Rightarrow> length p)"

definition wsSuffix :: "string \<Rightarrow> nat" where
  "wsSuffix s = (case find (\<lambda>p. suffix p s) whiteSpace of None \<Rightarrow> 0 | Some p \<Rightarrow> length p)"

function trimStart :: "string \<Rightarrow> string" where
  "trimStart s = (if wsPrefix s = 0 then s else trimStart (drop (wsPrefix s) s))"
  by pat_completeness auto
termination
proof (relation "measure length")
  show "wf (measure length)" by simp
next
  fix s :: string
  assume "wsPrefix s \<noteq> 0"
  moreover have "wsPrefix s \<le> length s"
    by (auto simp: wsPrefix_def find_Some_iff prefix_def split: option.splits)
  ultimately show "(drop (wsPrefix s) s, s) \<in> measure length" by simp
qed

function trimEnd :: "string \<Rightarrow> string" where
  "trimEnd s = (if wsSuffix s = 0 then s else trimEnd (take (length s - wsSuffix s) s))"
  by pat_completeness auto
termination
proof (relation "measure length")
  show "wf (measure length)" by simp
next
  fix s :: string
  assume "wsSuffix s \<noteq> 0"
  moreover have "wsSuffix s \<le> length s"
    by (auto simp: wsSuffix_def find_Some_iff suffix_def split: option.splits)
  ultimately show "(take (length s - wsSuffix s) s, s) \<in> measure length" by simp
qed

definition trim :: "string \<Rightarrow> string" where
  "trim s = trimEnd (trimStart s)"

text \<open>Decimal digits of a natural number, as \<^verbatim>\<open>String(n)\<close> prints an integer.\<close>

definition digit :: "nat \<Rightarrow> char" where
  "digit d = ''0123456789'' ! d"

fun showNat :: "nat \<Rightarrow> string" where
  "showNat n = (if n < 10 then [digit n] else showNat (n div 10) @ [digit (n mod 10)])"

declare showNat.simps [simp del]

section \<open>Numbers\<close>

text \<open>
  A JavaScript Number is an IEEE 754 double. A finite one is modelled by its exact value,
  a rational; the three special values are kept, and the sign of zero is not. Every
  arithmetic operation of the program computes the exact result and rounds it to the
  nearest double, a tie to the one with the even significand.
\<close>

datatype number = Fin rat | NaN | PosInfinity | NegInfinity

text \<open>The number of binary digits of a positive integer.\<close>

function bitLength :: "int \<Rightarrow> int" where
  "bitLength a = (if a \<le> 0 then 0 else 1 + bitLength (a div 2))"
  by pat_completeness auto
termination
  by (relation "measure nat") auto

declare bitLength.simps [simp del]

text \<open>
  The binary exponent of a positive rational \<open>q\<close>: the \<open>e\<close> with \<open>2\<^sup>e \<le> q < 2\<^sup>e\<^sup>+\<^sup>1\<close>. With
  \<open>q = a / b\<close> in lowest terms it is the difference of the bit lengths of \<open>a\<close> and \<open>b\<close>,
  or one less.
\<close>

definition ilog2 :: "rat \<Rightarrow> int" where
  "ilog2 q =
     (case quotient_of q of
        (a, b) \<Rightarrow>
          (let e = bitLength a - bitLength b
           in if 2 powi e \<le> q then e else e - 1))"

text \<open>The integer nearest to \<open>m\<close>, the even one of two.\<close>

definition roundEven :: "rat \<Rightarrow> int" where
  "roundEven m =
     (let f = \<lfloor>m\<rfloor>;
          d = m - of_int f
      in if d < 1 / 2 then f
         else if 1 / 2 < d then f + 1
         else if even f then f
         else f + 1)"

text \<open>
  The value with a significand of 53 bits nearest to \<open>q\<close>: a multiple of \<open>2\<^sup>e\<^sup>-\<^sup>5\<^sup>2\<close> for the
  exponent \<open>e\<close> of \<open>q\<close>, which is not taken below \<open>-1022\<close> (the subnormal numbers).
\<close>

definition nearest :: "rat \<Rightarrow> rat" where
  "nearest q =
     (if q = 0 then 0
      else
        let e = max (ilog2 \<bar>q\<bar>) (- 1022);
            ulp = 2 powi (e - 52)
        in sgn q * of_int (roundEven (\<bar>q\<bar> / ulp)) * ulp)"

text \<open>
  The double an exact result is rounded to: an infinity when the nearest value would need an
  exponent above \<open>1023\<close>, that is from \<open>2\<^sup>1\<^sup>0\<^sup>2\<^sup>4\<close> on.
\<close>

definition fl :: "rat \<Rightarrow> number" where
  "fl q =
     (let d = nearest q
      in if 1024 \<le> ilog2 \<bar>d\<bar> then (if 0 < q then PosInfinity else NegInfinity)
         else Fin d)"

text \<open>\<^verbatim>\<open>a / b\<close> for finite \<open>a\<close> and a finite \<open>b\<close> that is not negative (a byte or tick total).\<close>

definition divide_num :: "rat \<Rightarrow> rat \<Rightarrow> number" where
  "divide_num a b =
     (if b \<noteq> 0 then fl (a / b)
      else if a = 0 then NaN
      else if 0 < a then PosInfinity
      else NegInfinity)"

text \<open>\<^verbatim>\<open>x * 100\<close> and \<^verbatim>\<open>1 - x\<close>.\<close>

fun times100 :: "number \<Rightarrow> number" where
  "times100 (Fin r) = fl (r * 100)"
| "times100 x = x"

fun one_minus :: "number \<Rightarrow> number" where
  "one_minus (Fin r) = fl (1 - r)"
| "one_minus NaN = NaN"
| "one_minus PosInfinity = NegInfinity"
| "one_minus NegInfinity = PosInfinity"

text \<open>
  \<^verbatim>\<open>parseFloat(x.toFixed(2))\<close>. \<^verbatim>\<open>toFixed(2)\<close> takes the exact value of the double: it prints
  the sign and the integer \<open>n\<close> for which \<open>n / 100\<close> is nearest to \<open>\<bar>x\<bar>\<close>, the larger one of
  two, with two decimals; from \<open>10\<^sup>2\<^sup>1\<close> on it prints the number itself; \<^verbatim>\<open>NaN\<close> and the
  infinities print their names. \<^verbatim>\<open>parseFloat\<close> reads the text back as the double nearest
  to \<open>n / 100\<close>. That double is written \<open>Fin (n / 100)\<close> here: it is printed as the decimal
  \<open>n / 100\<close>, and it lies on the same side of every integer as \<open>n / 100\<close> does.
\<close>

fun round2 :: "number \<Rightarrow> number" where
  "round2 (Fin r) =
     (if 10 ^ 21 \<le> \<bar>r\<bar> then Fin r
      else Fin (sgn r * of_int \<lfloor>\<bar>r\<bar> * 100 + 1 / 2\<rfloor> / 100))"
| "round2 x = x"

text \<open>\<^verbatim>\<open>x > c\<close> for a constant \<open>c\<close>: false for \<^verbatim>\<open>NaN\<close>.\<close>

fun gt :: "number \<Rightarrow> rat \<Rightarrow> bool" where
  "gt (Fin r) c = (c < r)"
| "gt PosInfinity c = True"
| "gt x c = False"

text \<open>
  The text of a number in a template string, for the numbers this program prints there:
  the results of \<^const>\<open>round2\<close> below \<open>10\<^sup>2\<^sup>1\<close>, which stand for decimals with at most two
  places and are printed as these, with no trailing zero. (Of any other number the text
  below has the first two decimals only.)
\<close>

fun showNumber :: "number \<Rightarrow> string" where
  "showNumber (Fin r) =
     (let h = nat \<lfloor>\<bar>r\<bar> * 100\<rfloor> in
        (if r < 0 then ''-'' else []) @ showNat (h div 100) @
        (if h mod 100 = 0 then []
         else ''.'' @ [digit (h mod 100 div 10)] @
              (if h mod 10 = 0 then [] else [digit (h mod 10)])))"
| "showNumber NaN = ''NaN''"
| "showNumber PosInfinity = ''Infinity''"
| "showNumber NegInfinity = ''-Infinity''"

section \<open>Byte formatting\<close>

text \<open>
  \<^verbatim>\<open>Math.floor(Math.log(bytes) / Math.log(1024))\<close> for \<open>bytes \<ge> 1\<close>, by its mathematical
  value: the exponent of the largest power of 1024 that is at most \<open>bytes\<close>. The program
  takes the two logarithms and their quotient in doubles. That agrees with the value here
  wherever the quotient of the exact logarithms is not within rounding error of an
  integer; just below a power of 1024 (as at \<open>1024\<^sup>5 - 1\<close>) the program's quotient can
  reach the next integer, and its index is then one more than the one here.
\<close>

fun log1024 :: "nat \<Rightarrow> nat" where
  "log1024 b = (if b < 1024 then 0 else 1 + log1024 (b div 1024))"

declare log1024.simps [simp del]

definition sizes :: "string list" where
  "sizes = [''Bytes'', ''KB'', ''MB'', ''GB'', ''TB'']"

text \<open>
  \<^verbatim>\<open>sizes[i]\<close> in a string concatenation: an index past the end of the array reads
  \<^verbatim>\<open>undefined\<close>, which is printed as that word.
\<close>

definition unitName :: "nat \<Rightarrow> string" where
  "unitName i = (if i < length sizes then sizes ! i else ''undefined'')"

text \<open>
  \<^verbatim>\<open>formatBytes(bytes)\<close> for an integer byte count. For a negative count \<^verbatim>\<open>Math.log\<close> is
  \<^verbatim>\<open>NaN\<close>, so the index, the power and the quotient are \<^verbatim>\<open>NaN\<close> and the index reads
  \<^verbatim>\<open>undefined\<close>.
\<close>

definition formatBytes :: "int \<Rightarrow> string" where
  "formatBytes bytes =
     (if bytes = 0 then ''0 Bytes''
      else if bytes < 0 then showNumber NaN @ '' '' @ ''undefined''
      else
        let k = 1024;
            i = log1024 (nat bytes)
        in showNumber (round2 (divide_num (of_int bytes) (k ^ i))) @ '' '' @ unitName i)"

section \<open>The world outside the program\<close>

text \<open>
  The program acts on files, on the console, on the clock and on timers. A \<open>world\<close> holds
  the contents of the files by path, the actions done so far in their order, the clock
  (its \<open>n\<close>-th reading, as \<^verbatim>\<open>new Date().toISOString()\<close> prints it) with the number of
  readings taken, and the armed interval timers (handle and period). Writing to a file
  that can be written and reading a file that exists succeed; failures of the operating
  system are not modelled.
\<close>

datatype exn = TypeError | ListenerError string

record entry =
  timestamp :: string
  type :: string
  message :: string

datatype event = FileAppend string string | Emit entry | ConsoleLog string

record world =
  files :: "string \<Rightarrow> string option"
  trace :: "event list"
  clock :: "nat \<Rightarrow> string"
  reads :: nat
  timers :: "(nat \<times> nat) list"
  nextTimer :: nat

text \<open>
  \<^verbatim>\<open>fs.existsSync(path)\<close> followed by \<^verbatim>\<open>fs.readFileSync(path, "utf8")\<close>: the text of the
  file, or \<open>None\<close> when \<^verbatim>\<open>existsSync\<close> is false.
\<close>

definition readFileSync :: "string \<Rightarrow> world \<Rightarrow> string option" where
  "readFileSync path w = files w path"

definition appendFileSync :: "string \<Rightarrow> string \<Rightarrow> world \<Rightarrow> world" where
  "appendFileSync path data w =
     w\<lparr>files := (files w)(path \<mapsto> (case files w path of None \<Rightarrow> data | Some old \<Rightarrow> old @ data)),
       trace := trace w @ [FileAppend path data]\<rparr>"

definition toISOString :: "world \<Rightarrow> string \<times> world" where
  "toISOString w = (clock w (reads w), w\<lparr>reads := Suc (reads w)\<rparr>)"

definition setInterval :: "nat \<Rightarrow> world \<Rightarrow> nat \<times> world" where
  "setInterval interval w =
     (nextTimer w,
      w\<lparr>timers := timers w @ [(nextTimer w, interval)], nextTimer := Suc (nextTimer w)\<rparr>)"

definition clearInterval :: "nat option \<Rightarrow> world \<Rightarrow> world" where
  "clearInterval handle w =
     (case handle of
        None \<Rightarrow> w
      | Some h \<Rightarrow> w\<lparr>timers := filter (\<lambda>t. fst t \<noteq> h) (timers w)\<rparr>)"

section \<open>SystemLogger\<close>

text \<open>
  A listener of the \<^verbatim>\<open>"logged"\<close> event is given by what it does with an entry: the lines
  it prints on the console, and the exception it then throws, if any. The logger object
  holds the path of its file and its listeners in the order of their registration.
\<close>

type_synonym listener = "entry \<Rightarrow> string list \<times> exn option"

record SystemLogger =
  logFile :: string
  listeners :: "listener list"

definition newSystemLogger :: SystemLogger where
  "newSystemLogger = \<lparr>logFile = ''./logs/system-monitor.log'', listeners = []\<rparr>"

definition on_logged :: "listener \<Rightarrow> SystemLogger \<Rightarrow> SystemLogger" where
  "on_logged l this = this\<lparr>listeners := listeners this @ [l]\<rparr>"

text \<open>
  \<^verbatim>\<open>emit\<close> of Node's EventEmitter calls the listeners one after the other, in the order of
  their registration, in the caller's own stack: an exception a listener throws leaves
  \<^verbatim>\<open>emit\<close> at once, and the listeners after it are not called.
\<close>

fun callListeners :: "listener list \<Rightarrow> entry \<Rightarrow> world \<Rightarrow> (exn + unit) \<times> world" where
  "callListeners [] e w = (Inr (), w)"
| "callListeners (l # ls) e w =
     (let w' = w\<lparr>trace := trace w @ map ConsoleLog (fst (l e))\<rparr>
      in case snd (l e) of
           Some x \<Rightarrow> (Inl x, w')
         | None \<Rightarrow> callListeners ls e w')"

definition emit :: "SystemLogger \<Rightarrow> entry \<Rightarrow> world \<Rightarrow> (exn + unit) \<times> world" where
  "emit this e w = callListeners (listeners this) e (w\<lparr>trace := trace w @ [Emit e]\<rparr>)"

text \<open>\<^verbatim>\<open>log(message, type = "INFO")\<close>: an omitted second argument is \<open>None\<close>.\<close>

definition logger_log ::
  "SystemLogger \<Rightarrow> string \<Rightarrow> string option \<Rightarrow> world \<Rightarrow> (exn + unit) \<times> world" where
  "logger_log this msg type' w =
     (let ty = (case type' of None \<Rightarrow> ''INFO'' | Some t \<Rightarrow> t);
          (timestamp, w1) = toISOString w;
          logEntry = timestamp @ '' ['' @ ty @ ''] '' @ msg @ [LF];
          w2 = appendFileSync (logFile this) logEntry w1
      in emit this \<lparr>timestamp = timestamp, type = ty, message = msg\<rparr> w2)"

definition logger_error :: "SystemLogger \<Rightarrow> string \<Rightarrow> world \<Rightarrow> (exn + unit) \<times> world" where
  "logger_error this msg w = logger_log this msg (Some ''ERROR'') w"

definition logger_warn :: "SystemLogger \<Rightarrow> string \<Rightarrow> world \<Rightarrow> (exn + unit) \<times> world" where
  "logger_warn this msg w = logger_log this msg (Some ''WARN'') w"

definition logger_info :: "SystemLogger \<Rightarrow> string \<Rightarrow> world \<Rightarrow> (exn + unit) \<times> world" where
  "logger_info this msg w = logger_log this msg (Some ''INFO'') w"

text \<open>The listener the program registers: the console mirror.\<close>

definition consoleMirror :: listener where
  "consoleMirror e = ([''['' @ type e @ ''] '' @ message e], None)"

definition logger :: SystemLogger where
  "logger = on_logged consoleMirror newSystemLogger"

section \<open>SystemMonitor\<close>

record SystemMonitor =
  monitoring :: bool
  monitorInterval :: "nat option"

definition newSystemMonitor :: SystemMonitor where
  "newSystemMonitor = \<lparr>monitoring = False, monitorInterval = None\<rparr>"

text \<open>
  The methods take the logger the monitor refers to, the monitor object and the world.
  \<^verbatim>\<open>startMonitoring(interval = 5000)\<close>: an omitted argument is \<open>None\<close>.
\<close>

definition startMonitoring ::
  "SystemLogger \<Rightarrow> nat option \<Rightarrow> SystemMonitor \<Rightarrow> world \<Rightarrow> (exn + unit) \<times> SystemMonitor \<times> world" where
  "startMonitoring lg interval' this w =
     (if monitoring this then (Inr (), this, w)
      else
        let interval = (case interval' of None \<Rightarrow> 5000 | Some i \<Rightarrow> i);
            this1 = this\<lparr>monitoring := True\<rparr>
        in case logger_info lg ''System monitoring started'' w of
             (Inl x, w1) \<Rightarrow> (Inl x, this1, w1)
           | (Inr u, w1) \<Rightarrow>
               (let (h, w2) = setInterval interval w1
                in (Inr (), this1\<lparr>monitorInterval := Some h\<rparr>, w2)))"

definition stopMonitoring ::
  "SystemLogger \<Rightarrow> SystemMonitor \<Rightarrow> world \<Rightarrow> (exn + unit) \<times> SystemMonitor \<times> world" where
  "stopMonitoring lg this w =
     (if \<not> monitoring this then (Inr (), this, w)
      else
        let w1 = clearInterval (monitorInterval this) w;
            this1 = this\<lparr>monitoring := False\<rparr>
        in case logger_info lg ''System monitoring stopped'' w1 of
             (r, w2) \<Rightarrow> (r, this1, w2))"

subsection \<open>Collectors\<close>

text \<open>
  The collectors take what the operating system reports: \<^verbatim>\<open>os.totalmem()\<close> and
  \<^verbatim>\<open>os.freemem()\<close> in bytes, \<^verbatim>\<open>os.loadavg()\<close>, and \<^verbatim>\<open>os.cpus()\<close>, one record per core with
  its model name, its speed and its tick counters. Byte and tick counts are integers;
  below \<open>2\<^sup>5\<^sup>3\<close> they are doubles exactly, and so are their sums and differences, which
  are written here as sums and differences of integers.
\<close>

record MemoryInfo =
  total :: nat
  free :: nat
  used :: int
  usedPercent :: number
  totalFormatted :: string
  freeFormatted :: string
  usedFormatted :: string

definition getMemoryInfo :: "nat \<Rightarrow> nat \<Rightarrow> MemoryInfo" where
  "getMemoryInfo totalmem freemem =
     (let total = totalmem;
          free = freemem;
          used = int total - int free;
          usedPercent = round2 (times100 (divide_num (of_int used) (of_nat total)))
      in \<lparr>total = total, free = free, used = used, usedPercent = usedPercent,
          totalFormatted = formatBytes (int total),
          freeFormatted = formatBytes (int free),
          usedFormatted = formatBytes used\<rparr>)"

record cpu_times =
  user :: nat
  nice :: nat
  sys :: nat
  idle :: nat
  irq :: nat

record os_cpu =
  os_model :: string
  os_speed :: nat
  os_times :: cpu_times

text \<open>
  The loop of \<^verbatim>\<open>getCPUUsage\<close> over the cores, on the pair \<open>(totalIdle, totalTick)\<close>: the
  inner loop adds every counter of the core to \<open>totalTick\<close>, in the order of the keys.
\<close>

fun sumTicks :: "os_cpu list \<Rightarrow> nat \<times> nat \<Rightarrow> nat \<times> nat" where
  "sumTicks [] acc = acc"
| "sumTicks (cpu # rest) (totalIdle, totalTick) =
     sumTicks rest
       (totalIdle + idle (os_times cpu),
        totalTick + user (os_times cpu) + nice (os_times cpu) + sys (os_times cpu)
          + idle (os_times cpu) + irq (os_times cpu))"

definition getCPUUsage :: "os_cpu list \<Rightarrow> number" where
  "getCPUUsage cpus =
     (case sumTicks cpus (0, 0) of
        (totalIdle, totalTick) \<Rightarrow> one_minus (divide_num (of_nat totalIdle) (of_nat totalTick)))"

record CPUInfo =
  cores :: nat
  model :: string
  loadAverage :: "number list"
  usagePercent :: number

text \<open>
  \<^verbatim>\<open>getCPUInfo\<close> reads \<^verbatim>\<open>os.cpus()\<close> itself and once more inside \<^verbatim>\<open>getCPUUsage\<close>: \<open>cpus\<close> is
  the first reading and \<open>cpus'\<close> the second. \<^verbatim>\<open>cpus[0]?.model || "Unknown"\<close> is the
  sentinel when there is no first core or its model name is empty.
\<close>

definition getCPUInfo :: "os_cpu list \<Rightarrow> number list \<Rightarrow> os_cpu list \<Rightarrow> CPUInfo" where
  "getCPUInfo cpus loadavg cpus' =
     (let loadAverage = map round2 loadavg;
          usagePercent = getCPUUsage cpus'
      in \<lparr>cores = length cpus,
          model = (case cpus of
                     [] \<Rightarrow> ''Unknown''
                   | c # cs \<Rightarrow> if os_model c = [] then ''Unknown'' else os_model c),
          loadAverage = loadAverage,
          usagePercent = round2 (times100 usagePercent)\<rparr>)"

subsection \<open>Alerts\<close>

text \<open>The two emoji of the alert messages, in UTF-8: U+1F6A8, and U+26A0 U+FE0F.\<close>

definition siren :: string where
  "siren = [CHR 0xF0, CHR 0x9F, CHR 0x9A, CHR 0xA8]"

definition warningSign :: string where
  "warningSign = [CHR 0xE2, CHR 0x9A, CHR 0xA0, CHR 0xEF, CHR 0xB8, CHR 0x8F]"

definition checkAlerts ::
  "SystemLogger \<Rightarrow> MemoryInfo \<Rightarrow> CPUInfo \<Rightarrow> world \<Rightarrow> (exn + unit) \<times> world" where
  "checkAlerts lg memory cpu w =
     (case (if gt (usedPercent memory) 85 then
              logger_error lg
                (siren @ '' CRITICAL: Memory usage at '' @ showNumber (usedPercent memory) @ ''%'') w
            else if gt (usedPercent memory) 70 then
              logger_warn lg
                (warningSign @ ''  WARNING: Memory usage at '' @ showNumber (usedPercent memory) @ ''%'') w
            else (Inr (), w)) of
        (Inl x, w1) \<Rightarrow> (Inl x, w1)
      | (Inr u, w1) \<Rightarrow>
          (if gt (usagePercent cpu) 80 then
             logger_error lg
               (siren @ '' CRITICAL: CPU usage at '' @ showNumber (usagePercent cpu) @ ''%'') w1
           else if gt (usagePercent cpu) 60 then
             logger_warn lg
               (warningSign @ ''  WARNING: CPU usage at '' @ showNumber (usagePercent cpu) @ ''%'') w1
           else (Inr (), w1)))"

subsection \<open>Report\<close>

text \<open>\<^verbatim>\<open>xs[i]\<close>: \<^verbatim>\<open>undefined\<close> (here \<open>None\<close>) outside the array.\<close>

definition index :: "'a list \<Rightarrow> int \<Rightarrow> 'a option" where
  "index xs i = (if 0 \<le> i \<and> i < int (length xs) then Some (xs ! nat i) else None)"

record stats =
  totalEntries :: nat
  errors :: nat
  warnings :: nat
  startTime :: string
  endTime :: string

definition reportText :: "stats \<Rightarrow> string" where
  "reportText st =
     [LF] @ ''==============================='' @ [LF] @
     ''  SYSTEM MONITOR REPORT'' @ [LF] @
     ''==============================='' @ [LF] @
     ''Total Log Entries: '' @ showNat (totalEntries st) @ [LF] @
     ''Errors: '' @ showNat (errors st) @ [LF] @
     ''Warnings: '' @ showNat (warnings st) @ [LF] @
     ''Start Time: '' @ startTime st @ [LF] @
     ''End Time: '' @ endTime st @ [LF] @
     ''==============================='' @ [LF]"

text \<open>
  \<^verbatim>\<open>generateReport\<close>. The first case is the early return for a file that does not exist.
  \<^verbatim>\<open>lines[lines.length - 2]\<close> is \<^verbatim>\<open>undefined\<close> when there is one line
  only, and \<^verbatim>\<open>.split\<close> on it throws a TypeError. The pieces of a \<^verbatim>\<open>split\<close> are never
  none, so \<^verbatim>\<open>[0]\<close> of them is their head.
\<close>

definition generateReport :: "SystemLogger \<Rightarrow> world \<Rightarrow> exn + string" where
  "generateReport lg w =
     (case readFileSync (logFile lg) w of
        None \<Rightarrow> Inr ''No log data available''
      | Some content \<Rightarrow>
          (let lines = filter (\<lambda>line. trim line \<noteq> []) (split_str content LF)
           in if length lines = 0 then Inr ''No log data available''
              else
                (case index lines (int (length lines) - 2) of
                   None \<Rightarrow> Inl TypeError
                 | Some beforeLast \<Rightarrow>
                     Inr (reportText
                       \<lparr>totalEntries = length lines,
                        errors = length (filter (\<lambda>line. includes_str line ''[ERROR]'') lines),
                        warnings = length (filter (\<lambda>line. includes_str line ''[WARN]'') lines),
                        startTime = hd (split_str (lines ! 0) (CHR '' '')),
                        endTime = hd (split_str beforeLast (CHR '' ''))\<rparr>))))"

section \<open>Notions of the specification\<close>

text \<open>
  The definitions of this section are not code of the program: they say what the
  statements below compare the program with.
\<close>

subsection \<open>Rounding and tick sums\<close>

text \<open>
  A value rounded to two decimals: the nearest multiple of \<open>1/100\<close>, the larger one of
  two that are equally near.
\<close>

definition roundTo2 :: "rat \<Rightarrow> rat" where
  "roundTo2 x = of_int (round (x * 100)) / 100"

text \<open>The idle ticks of all cores, and the ticks of all categories of all cores.\<close>

definition idleTicks :: "os_cpu list \<Rightarrow> nat" where
  "idleTicks cpus = (\<Sum>c\<leftarrow>cpus. idle (os_times c))"

definition allTicks :: "os_cpu list \<Rightarrow> nat" where
  "allTicks cpus =
     (\<Sum>c\<leftarrow>cpus. user (os_times c) + nice (os_times c) + sys (os_times c)
        + idle (os_times c) + irq (os_times c))"

subsection \<open>Log lines and listeners\<close>

text \<open>The line of an entry without its newline, and the level of a call of \<^verbatim>\<open>log\<close>.\<close>

definition logLine :: "string \<Rightarrow> string \<Rightarrow> string \<Rightarrow> string" where
  "logLine ts ty msg = ts @ '' ['' @ ty @ ''] '' @ msg"

definition levelOr :: "string option \<Rightarrow> string" where
  "levelOr type' = (case type' of None \<Rightarrow> ''INFO'' | Some t \<Rightarrow> t)"

text \<open>
  Of the listeners of a logger, those that are called for an entry (all up to the first
  that throws), what they print, and the exception that leaves \<^verbatim>\<open>emit\<close>.
\<close>

fun notified :: "listener list \<Rightarrow> entry \<Rightarrow> listener list" where
  "notified [] e = []"
| "notified (l # ls) e = l # (if snd (l e) = None then notified ls e else [])"

fun thrown :: "listener list \<Rightarrow> entry \<Rightarrow> exn option" where
  "thrown [] e = None"
| "thrown (l # ls) e = (case snd (l e) of Some x \<Rightarrow> Some x | None \<Rightarrow> thrown ls e)"

definition printed :: "listener list \<Rightarrow> entry \<Rightarrow> string list" where
  "printed ls e = concat (map (\<lambda>l. fst (l e)) (notified ls e))"

text \<open>The levels and messages of the entries emitted in a trace, and the events a run added.\<close>

fun emitted :: "event list \<Rightarrow> (string \<times> string) list" where
  "emitted [] = []"
| "emitted (Emit e # es) = (type e, message e) # emitted es"
| "emitted (FileAppend p d # es) = emitted es"
| "emitted (ConsoleLog s # es) = emitted es"

definition newEvents :: "world \<Rightarrow> world \<Rightarrow> event list" where
  "newEvents w w' = drop (length (trace w)) (trace w')"

text \<open>The text of a file, empty when there is no file, and its lines that are not empty.\<close>

definition fileText :: "string \<Rightarrow> world \<Rightarrow> string" where
  "fileText path w = (case readFileSync path w of None \<Rightarrow> [] | Some s \<Rightarrow> s)"

definition nonEmptyLines :: "string \<Rightarrow> string list" where
  "nonEmptyLines s = filter (\<lambda>line. line \<noteq> []) (split_str s LF)"

text \<open>
  A sequence of calls of the logger: \<^verbatim>\<open>log\<close> with or without a level, and the three
  wrappers. Every call is made, whatever the outcome of the calls before it.
\<close>

datatype call = Log string "string option" | Error string | Warn string | Info string

fun perform :: "SystemLogger \<Rightarrow> call \<Rightarrow> world \<Rightarrow> (exn + unit) \<times> world" where
  "perform lg (Log m t) w = logger_log lg m t w"
| "perform lg (Error m) w = logger_error lg m w"
| "perform lg (Warn m) w = logger_warn lg m w"
| "perform lg (Info m) w = logger_info lg m w"

fun performAll :: "SystemLogger \<Rightarrow> call list \<Rightarrow> world \<Rightarrow> world" where
  "performAll lg [] w = w"
| "performAll lg (c # cs) w = performAll lg cs (snd (perform lg c w))"

fun levelOf :: "call \<Rightarrow> string" where
  "levelOf (Log m t) = levelOr t"
| "levelOf (Error m) = ''ERROR''"
| "levelOf (Warn m) = ''WARN''"
| "levelOf (Info m) = ''INFO''"

fun messageOf :: "call \<Rightarrow> string" where
  "messageOf (Log m t) = m"
| "messageOf (Error m) = m"
| "messageOf (Warn m) = m"
| "messageOf (Info m) = m"

text \<open>The lines the calls are expected to write, the first with the \<open>n\<close>-th clock reading.\<close>

fun expectedLines :: "(nat \<Rightarrow> string) \<Rightarrow> nat \<Rightarrow> call list \<Rightarrow> string list" where
  "expectedLines clk n [] = []"
| "expectedLines clk n (c # cs) =
     logLine (clk n) (levelOf c) (messageOf c) # expectedLines clk (Suc n) cs"

text \<open>
  The form of \<^verbatim>\<open>toISOString()\<close> for the years 0 to 9999, \<^verbatim>\<open>YYYY-MM-DDTHH:mm:ss.sssZ\<close>: a
  \<open>d\<close> of the pattern stands for a digit.
\<close>

definition isoTimestamp :: "string \<Rightarrow> bool" where
  "isoTimestamp s =
     list_all2 (\<lambda>p c. if p = CHR ''d'' then c \<in> set ''0123456789'' else c = p)
       ''dddd-dd-ddTdd:dd:dd.dddZ'' s"

subsection \<open>Alerts\<close>

text \<open>\<^verbatim>\<open>x <= c\<close>: false for \<^verbatim>\<open>NaN\<close>.\<close>

fun le_num :: "number \<Rightarrow> rat \<Rightarrow> bool" where
  "le_num (Fin r) c = (r \<le> c)"
| "le_num NegInfinity c = True"
| "le_num x c = False"

text \<open>
  The alerts of the specification, as level and message: CRITICAL at level ERROR above
  the upper threshold, WARNING at level WARN above the lower one and up to the upper one.
\<close>

definition memoryAlerts :: "number \<Rightarrow> (string \<times> string) list" where
  "memoryAlerts memoryPercent =
     (if gt memoryPercent 85
      then [(''ERROR'', siren @ '' CRITICAL: Memory usage at '' @ showNumber memoryPercent @ ''%'')]
      else []) @
     (if gt memoryPercent 70 \<and> le_num memoryPercent 85
      then [(''WARN'', warningSign @ ''  WARNING: Memory usage at '' @ showNumber memoryPercent @ ''%'')]
      else [])"

definition cpuAlerts :: "number \<Rightarrow> (string \<times> string) list" where
  "cpuAlerts cpuPercent =
     (if gt cpuPercent 80
      then [(''ERROR'', siren @ '' CRITICAL: CPU usage at '' @ showNumber cpuPercent @ ''%'')]
      else []) @
     (if gt cpuPercent 60 \<and> le_num cpuPercent 80
      then [(''WARN'', warningSign @ ''  WARNING: CPU usage at '' @ showNumber cpuPercent @ ''%'')]
      else [])"

subsection \<open>Report\<close>

text \<open>The lines of a text that are not blank, as \<^const>\<open>generateReport\<close> selects them.\<close>

definition nonBlankLines :: "string \<Rightarrow> string list" where
  "nonBlankLines content = filter (\<lambda>line. trim line \<noteq> []) (split_str content LF)"

text \<open>
  The first token of a line delimited by white space, in the specification's words: what
  stands between the white space the line starts with and the next white space.
\<close>

definition isSpace :: "char \<Rightarrow> bool" where
  "isSpace c = (c \<in> set [CHR 0x09, CHR 0x0A, CHR 0x0B, CHR 0x0C, CHR 0x0D, CHR 0x20])"

definition firstToken :: "string \<Rightarrow> string" where
  "firstToken s = takeWhile (\<lambda>c. \<not> isSpace c) (dropWhile isSpace s)"

subsection \<open>Example inputs\<close>

text \<open>
  A world with no file, no action done, no timer armed and a clock that stands still; a
  listener that throws; a core with 65 busy ticks of 100; a memory snapshot at 90 per cent
  and a CPU snapshot at 65 per cent.
\<close>

definition exampleWorld :: world where
  "exampleWorld =
     \<lparr>files = Map.empty, trace = [], clock = (\<lambda>n. ''2024-01-01T12:00:00.000Z''),
      reads = 0, timers = [], nextTimer = 1\<rparr>"

definition failingListener :: listener where
  "failingListener e = ([], Some (ListenerError ''boom''))"

definition exampleCore :: os_cpu where
  "exampleCore =
     \<lparr>os_model = ''Example CPU'', os_speed = 2400,
      os_times = \<lparr>user = 50, nice = 0, sys = 14, idle = 35, irq = 1\<rparr>\<rparr>"

text \<open>Two readings of the counters of one core: 63 idle ticks of 160, and a long uptime.\<close>

definition shortCore :: os_cpu where
  "shortCore =
     \<lparr>os_model = ''Example CPU'', os_speed = 2400,
      os_times = \<lparr>user = 97, nice = 0, sys = 0, idle = 63, irq = 0\<rparr>\<rparr>"

definition longCore :: os_cpu where
  "longCore =
     \<lparr>os_model = ''Example CPU'', os_speed = 2400,
      os_times = \<lparr>user = 136934958652, nice = 0, sys = 0, idle = 717040461691, irq = 0\<rparr>\<rparr>"

definition exampleMemory :: MemoryInfo where
  "exampleMemory =
     \<lparr>total = 1000, free = 100, used = 900, usedPercent = Fin 90,
      totalFormatted = ''1000 Bytes'', freeFormatted = ''100 Bytes'',
      usedFormatted = ''900 Bytes''\<rparr>"

definition exampleCPU :: CPUInfo where
  "exampleCPU =
     \<lparr>cores = 1, model = ''Example CPU'', loadAverage = [], usagePercent = Fin 65\<rparr>"

section \<open>Strings: what the operations compute\<close>

lemma split_str_nonempty: "split_str s sep \<noteq> []"
  by (induction s) (auto split: list.splits)

lemma hd_split_str: "hd (split_str s sep) = takeWhile (\<lambda>c. c \<noteq> sep) s"
proof (induction s)
  case Nil
  then show ?case by simp
next
  case (Cons c cs)
  then show ?case using split_str_nonempty [of cs sep]
    by (cases "split_str cs sep") auto
qed

lemma split_str_line: "LF \<notin> set l \<Longrightarrow> split_str (l @ LF # rest) LF = l # split_str rest LF"
  by (induction l) auto

lemma split_str_lines:
  "\<forall>l\<in>set ls. LF \<notin> set l \<Longrightarrow> split_str (concat (map (\<lambda>l. l @ [LF]) ls)) LF = ls @ [[]]"
  by (induction ls) (simp_all add: split_str_line)

lemma includes_str_iff: "includes_str s p \<longleftrightarrow> (\<exists>xs ys. s = xs @ p @ ys)"
proof (induction s)
  case Nil
  then show ?case by auto
next
  case (Cons c cs)
  show ?case
  proof
    assume "includes_str (c # cs) p"
    then consider "prefix p (c # cs)" | "includes_str cs p" by auto
    then show "\<exists>xs ys. c # cs = xs @ p @ ys"
    proof cases
      case 1
      then obtain ys where "c # cs = p @ ys" by (auto simp: prefix_def)
      then have "c # cs = [] @ p @ ys" by simp
      then show ?thesis by blast
    next
      case 2
      with Cons obtain xs ys where "cs = xs @ p @ ys" by blast
      then have "c # cs = (c # xs) @ p @ ys" by simp
      then show ?thesis by blast
    qed
  next
    assume "\<exists>xs ys. c # cs = xs @ p @ ys"
    then obtain xs ys where e: "c # cs = xs @ p @ ys" by blast
    show "includes_str (c # cs) p"
    proof (cases xs)
      case Nil
      with e have "prefix p (c # cs)" by (simp add: prefix_def)
      then show ?thesis by simp
    next
      case (Cons x xs')
      with e have "cs = xs' @ p @ ys" by simp
      with Cons.IH have "includes_str cs p" by blast
      then show ?thesis by simp
    qed
  qed
qed

lemma includes_str_sublist: "includes_str s p = sublist p s"
  by (simp add: includes_str_iff sublist_def)

section \<open>Numbers: rounding in doubles\<close>

text \<open>
  The exponent and the rounding of \<^const>\<open>nearest\<close>, and from them the relative error of one
  operation: at most \<open>2\<^sup>-\<^sup>5\<^sup>3\<close> of the exact result, and half a step of the subnormal numbers.
\<close>

lemma bitLength_bounds:
  "0 < a \<Longrightarrow> 1 \<le> bitLength a \<and> 2 ^ nat (bitLength a - 1) \<le> a \<and> a < 2 ^ nat (bitLength a)"
proof (induction a rule: bitLength.induct)
  case (1 a)
  show ?case
  proof (cases "a = 1")
    case True
    have "bitLength (1 div 2) = 0" by (simp add: bitLength.simps)
    then have "bitLength 1 = 1" by (simp add: bitLength.simps [of 1])
    with True show ?thesis by simp
  next
    case False
    with "1.prems" have h: "0 < a div 2" by simp
    from "1.prems" have na: "\<not> a \<le> 0" by simp
    from "1.IH" [OF na h]
    have ih: "1 \<le> bitLength (a div 2)" "2 ^ nat (bitLength (a div 2) - 1) \<le> a div 2"
      "a div 2 < 2 ^ nat (bitLength (a div 2))" by simp_all
    have l: "bitLength a = 1 + bitLength (a div 2)" using na by (simp add: bitLength.simps [of a])
    have n1: "nat (bitLength a - 1) = Suc (nat (bitLength (a div 2) - 1))"
      using ih(1) l by simp
    have n2: "nat (bitLength a) = Suc (nat (bitLength (a div 2)))"
      using ih(1) l by simp
    from ih(2) have "2 * 2 ^ nat (bitLength (a div 2) - 1) \<le> 2 * (a div 2)" by simp
    also have "\<dots> \<le> a" by simp
    finally have lo: "2 ^ nat (bitLength a - 1) \<le> a" by (simp add: n1)
    from ih(3) have "a div 2 + 1 \<le> 2 ^ nat (bitLength (a div 2))" by simp
    then have "2 * (a div 2 + 1) \<le> 2 * 2 ^ nat (bitLength (a div 2))" by simp
    moreover have "a < 2 * (a div 2 + 1)" by presburger
    ultimately have hi: "a < 2 ^ nat (bitLength a)" by (simp add: n2)
    from lo hi ih(1) l show ?thesis by simp
  qed
qed

lemma ilog2_le:
  assumes "0 < q"
  shows "2 powi ilog2 q \<le> q"
proof -
  obtain a b where ab: "quotient_of q = (a, b)" by (cases "quotient_of q")
  then have b: "0 < b" and q: "q = of_int a / of_int b"
    by (simp_all add: quotient_of_denom_pos quotient_of_div)
  from assms q b have a: "0 < a" by (simp add: zero_less_divide_iff)
  let ?e = "bitLength a - bitLength b"
  show ?thesis
  proof (cases "2 powi ?e \<le> q")
    case True
    with ab show ?thesis by (simp add: ilog2_def)
  next
    case False
    with ab have e: "ilog2 q = ?e - 1" by (simp add: ilog2_def)
    from bitLength_bounds [OF a] have la: "1 \<le> bitLength a" "2 ^ nat (bitLength a - 1) \<le> a"
      by simp_all
    from bitLength_bounds [OF b] have lb: "1 \<le> bitLength b" "b < 2 ^ nat (bitLength b)"
      by simp_all
    have "(2::rat) powi (?e - 1) = 2 powi (bitLength a - 1) / 2 powi bitLength b"
      using power_int_diff [of "2::rat" "bitLength a - 1" "bitLength b"] by (simp add: algebra_simps)
    also have "\<dots> = 2 ^ nat (bitLength a - 1) / 2 ^ nat (bitLength b)"
      using la lb by (simp add: power_int_nonneg_exp)
    also have "\<dots> \<le> of_int a / 2 ^ nat (bitLength b)"
    proof -
      from la(2) have "(of_int (2 ^ nat (bitLength a - 1)) :: rat) \<le> of_int a"
        by (simp only: of_int_le_iff)
      then show ?thesis by (simp add: divide_right_mono)
    qed
    also have "\<dots> \<le> of_int a / of_int b"
    proof -
      from lb(2) have "(of_int b :: rat) \<le> of_int (2 ^ nat (bitLength b))"
        by (simp only: of_int_le_iff less_imp_le)
      moreover have "(0::rat) < of_int b" using b by simp
      moreover have "(0::rat) \<le> of_int a" using a by simp
      ultimately show ?thesis by (simp add: divide_left_mono)
    qed
    finally have "(2::rat) powi (?e - 1) \<le> of_int a / of_int b" .
    then have "(2::rat) powi (?e - 1) \<le> q" by (simp only: q [symmetric])
    then show ?thesis by (simp only: e)
  qed
qed

lemma roundEven_error: "\<bar>of_int (roundEven m) - m\<bar> \<le> 1 / 2"
proof -
  have "of_int \<lfloor>m\<rfloor> \<le> m" "m < of_int \<lfloor>m\<rfloor> + 1" by linarith+
  then show ?thesis by (auto simp: roundEven_def Let_def)
qed

lemma nearest_error: "\<bar>nearest q - q\<bar> \<le> \<bar>q\<bar> / 2 ^ 53 + 2 powi (- 1075)"
proof (cases "q = 0")
  case True
  have "(0::rat) < 2 powi (- 1075)" by (rule zero_less_power_int) simp
  with True show ?thesis by (simp add: nearest_def)
next
  case False
  define e where "e = max (ilog2 \<bar>q\<bar>) (- 1022)"
  define ulp :: rat where "ulp = 2 powi (e - 52)"
  define m where "m = \<bar>q\<bar> / ulp"
  have up: "0 < ulp" unfolding ulp_def by (rule zero_less_power_int) simp
  have n: "nearest q = sgn q * of_int (roundEven m) * ulp"
    using False by (simp add: nearest_def Let_def e_def ulp_def m_def)
  have qs: "q = sgn q * (m * ulp)" using up by (simp add: m_def sgn_mult_abs)
  have "nearest q - q = sgn q * ((of_int (roundEven m) - m) * ulp)"
    by (subst qs, subst n) (simp add: algebra_simps)
  then have "\<bar>nearest q - q\<bar> = \<bar>sgn q\<bar> * (\<bar>of_int (roundEven m) - m\<bar> * ulp)"
    using up by (simp add: abs_mult)
  also have "\<dots> = \<bar>of_int (roundEven m) - m\<bar> * ulp" using False by (simp add: abs_sgn_eq)
  also have "\<dots> \<le> (1 / 2) * ulp" using roundEven_error [of m] up by (simp add: mult_right_mono)
  finally have err: "\<bar>nearest q - q\<bar> \<le> ulp / 2" by simp
  have half: "ulp / 2 = 2 powi (e - 53)"
    using power_int_diff [of "2::rat" "e - 52" 1] by (simp add: ulp_def)
  show ?thesis
  proof (cases "- 1022 \<le> ilog2 \<bar>q\<bar>")
    case True
    then have "e = ilog2 \<bar>q\<bar>" by (simp add: e_def)
    moreover have "2 powi ilog2 \<bar>q\<bar> \<le> \<bar>q\<bar>" using False by (intro ilog2_le) simp
    ultimately have "2 powi e \<le> \<bar>q\<bar>" by simp
    moreover have "(2::rat) powi (e - 53) = 2 powi e / 2 ^ 53"
      using power_int_diff [of "2::rat" e 53] by simp
    ultimately have "ulp / 2 \<le> \<bar>q\<bar> / 2 ^ 53" by (simp add: half divide_right_mono)
    moreover have "(0::rat) < 2 powi (- 1075)" by (rule zero_less_power_int) simp
    ultimately show ?thesis using err by linarith
  next
    case False
    then have "e = - 1022" by (simp add: e_def)
    then have "ulp / 2 = 2 powi (- 1075)" by (simp add: half)
    moreover have "0 \<le> \<bar>q\<bar> / 2 ^ 53" by simp
    ultimately show ?thesis using err by linarith
  qed
qed

lemma subnormal_step_small: "(2::rat) powi (- 1075) \<le> 1 / 2 ^ 100"
proof -
  have "(2::rat) powi (- 1075) = 1 / 2 ^ 1075" by (simp add: power_int_minus field_simps)
  also have "\<dots> \<le> 1 / 2 ^ 100" by (intro divide_left_mono power_increasing) simp_all
  finally show ?thesis .
qed

lemma ilog2_zero: "ilog2 0 = - 2"
  by (simp add: ilog2_def bitLength.simps power_int_minus)

lemma ilog2_less:
  assumes "0 < q" and "q < 2 powi n"
  shows "ilog2 q < n"
proof (rule ccontr)
  assume "\<not> ilog2 q < n"
  then have "(2::rat) powi n \<le> 2 powi ilog2 q" by (intro power_int_increasing) simp_all
  also have "\<dots> \<le> q" using assms(1) by (rule ilog2_le)
  finally show False using assms(2) by simp
qed

text \<open>An operation with an exact result of at most 200 in absolute value gives a finite double.\<close>

lemma fl_step:
  assumes "\<bar>q\<bar> \<le> 200"
  shows "\<exists>d. fl q = Fin d \<and> \<bar>d - q\<bar> \<le> \<bar>q\<bar> / 2 ^ 53 + 1 / 2 ^ 100"
proof -
  from nearest_error [of q] subnormal_step_small have e: "\<bar>nearest q - q\<bar> \<le> \<bar>q\<bar> / 2 ^ 53 + 1 / 2 ^ 100"
    by linarith
  have "\<bar>q\<bar> / 2 ^ 53 \<le> 200 / 2 ^ 53" using assms by (simp add: divide_right_mono)
  moreover have "(200::rat) / 2 ^ 53 \<le> 1" "(1::rat) / 2 ^ 100 \<le> 1" by simp_all
  ultimately have b: "\<bar>nearest q\<bar> \<le> 202" using e assms by linarith
  have "ilog2 \<bar>nearest q\<bar> < 1024"
  proof (cases "nearest q = 0")
    case True
    then show ?thesis by (simp add: ilog2_zero)
  next
    case False
    then have "0 < \<bar>nearest q\<bar>" by simp
    moreover have "(202::rat) < 2 powi 1024" by simp
    with b have "\<bar>nearest q\<bar> < 2 powi 1024" by linarith
    ultimately show ?thesis by (rule ilog2_less)
  qed
  then have "fl q = Fin (nearest q)" by (simp add: fl_def Let_def)
  with e show ?thesis by blast
qed

text \<open>
  \<^const>\<open>round2\<close> gives a number of hundredths, at most half a hundredth from its argument.
\<close>

lemma round2_error:
  assumes "\<bar>r\<bar> < 10 ^ 21"
  shows "\<exists>k. round2 (Fin r) = Fin (of_int k / 100) \<and> \<bar>of_int k / 100 - r\<bar> \<le> 1 / 200"
proof -
  define n where "n = \<lfloor>\<bar>r\<bar> * 100 + 1 / 2\<rfloor>"
  have f: "of_int n \<le> \<bar>r\<bar> * 100 + 1 / 2" "\<bar>r\<bar> * 100 + 1 / 2 < of_int n + 1"
    unfolding n_def by linarith+
  have r: "round2 (Fin r) = Fin (sgn r * of_int n / 100)"
    using assms by (simp add: n_def)
  show ?thesis
  proof (cases "0 \<le> r")
    case True
    show ?thesis
    proof (cases "r = 0")
      case True
      with r have "round2 (Fin r) = Fin (of_int 0 / 100)" by simp
      with True show ?thesis by (intro exI [of _ 0]) simp
    next
      case False
      with True have p: "0 < r" by simp
      then have "sgn r = 1" by simp
      with r have "round2 (Fin r) = Fin (of_int n / 100)" by simp
      moreover from p have "\<bar>r\<bar> = r" by simp
      with f have "\<bar>of_int n / 100 - r\<bar> \<le> 1 / 200" by linarith
      ultimately show ?thesis by blast
    qed
  next
    case False
    then have p: "r < 0" by simp
    then have "sgn r = - 1" by simp
    with r have "round2 (Fin r) = Fin (of_int (- n) / 100)" by simp
    moreover from p have "\<bar>r\<bar> = - r" by simp
    with f have "\<bar>- of_int n / 100 - r\<bar> \<le> 1 / 200" by linarith
    then have "\<bar>of_int (- n) / 100 - r\<bar> \<le> 1 / 200" by simp
    ultimately show ?thesis by blast
  qed
qed

lemma abs_le_via: "\<bar>a - b\<bar> \<le> e \<Longrightarrow> \<bar>b\<bar> \<le> d \<Longrightarrow> \<bar>a\<bar> \<le> d + (e::rat)"
  by linarith

text \<open>\<^verbatim>\<open>parseFloat((z * 100).toFixed(2))\<close> for a double \<open>z\<close> of at most 2 in absolute value.\<close>

lemma times100_round2:
  assumes "\<bar>z\<bar> \<le> 2"
  shows "\<exists>k. round2 (times100 (Fin z)) = Fin (of_int k / 100)
           \<and> \<bar>of_int k / 100 - 100 * z\<bar> \<le> 1 / 200 + 100 * \<bar>z\<bar> / 2 ^ 53 + 1 / 2 ^ 100"
proof -
  from assms have "\<bar>z * 100\<bar> \<le> 200" by (simp add: abs_mult)
  from fl_step [OF this] obtain x where
    x: "fl (z * 100) = Fin x" "\<bar>x - z * 100\<bar> \<le> \<bar>z * 100\<bar> / 2 ^ 53 + 1 / 2 ^ 100" by blast
  have a: "\<bar>z * 100\<bar> = 100 * \<bar>z\<bar>" by (simp add: abs_mult)
  have "(100 * \<bar>z\<bar>) / 2 ^ 53 \<le> 1" using assms by simp
  moreover have "(1::rat) / 2 ^ 100 \<le> 1" by simp
  ultimately have "\<bar>x\<bar> \<le> 202" using x(2) assms unfolding a by linarith
  then have "\<bar>x\<bar> < 10 ^ 21" by simp
  from round2_error [OF this] obtain k where
    k: "round2 (Fin x) = Fin (of_int k / 100)" "\<bar>of_int k / 100 - x\<bar> \<le> 1 / 200" by blast
  from x(1) k(1) have "round2 (times100 (Fin z)) = Fin (of_int k / 100)" by simp
  moreover from x(2) k(2) have "\<bar>of_int k / 100 - 100 * z\<bar> \<le> 1 / 200 + 100 * \<bar>z\<bar> / 2 ^ 53 + 1 / 2 ^ 100"
    unfolding a by linarith
  ultimately show ?thesis by blast
qed

section \<open>Byte formatting\<close>

text \<open>
  \<^const>\<open>log1024\<close> is the exponent of the largest power of 1024 that the byte count reaches.
\<close>

lemma log1024_bounds:
  "0 < b \<Longrightarrow> 1024 ^ log1024 b \<le> b \<and> b < 1024 ^ (log1024 b + 1)"
proof (induction b rule: log1024.induct)
  case (1 b)
  show ?case
  proof (cases "b < 1024")
    case True
    with "1.prems" show ?thesis by (simp add: log1024.simps [of b])
  next
    case False
    then have p: "0 < b div 1024" by (simp add: div_greater_zero_iff)
    from "1.IH" [OF False p]
    have ih: "1024 ^ log1024 (b div 1024) \<le> b div 1024"
      "b div 1024 < 1024 ^ (log1024 (b div 1024) + 1)" by simp_all
    have l: "log1024 b = 1 + log1024 (b div 1024)" using False by (simp add: log1024.simps [of b])
    from ih(1) have "1024 * 1024 ^ log1024 (b div 1024) \<le> 1024 * (b div 1024)" by simp
    also have "\<dots> \<le> b" by simp
    finally have lo: "1024 ^ log1024 b \<le> b" by (simp add: l)
    from ih(2) have "b div 1024 + 1 \<le> 1024 ^ (log1024 (b div 1024) + 1)" by simp
    then have "1024 * (b div 1024 + 1) \<le> 1024 * 1024 ^ (log1024 (b div 1024) + 1)"
      by (rule mult_le_mono2)
    moreover have "b < 1024 * (b div 1024 + 1)"
      using dividend_less_times_div [of 1024 b] by simp
    ultimately have "b < 1024 * 1024 ^ (log1024 (b div 1024) + 1)" by linarith
    then have hi: "b < 1024 ^ (log1024 b + 1)" by (simp add: l)
    from lo hi show ?thesis by simp
  qed
qed

lemma formatBytes_examples:
  "formatBytes 0 = ''0 Bytes'' \<and> formatBytes 1024 = ''1 KB'' \<and> formatBytes 1536 = ''1.5 KB''"
  by code_simp

text \<open>
  Claim C3. \<^verbatim>\<open>formatBytes\<close> is to print every byte count with one of the units Bytes, KB,
  MB, GB and TB. For 1.5 times \<open>1024\<^sup>5\<close> bytes the index of the unit is 5, past the end of
  the array of units, and the text printed is the value followed by the word undefined.
\<close>

theorem formatBytes_beyond_TB: "formatBytes 1688849860263936 = ''1.5 undefined''"
proof -
  have l: "log1024 (nat 1688849860263936) = 5" by (simp add: log1024.simps)
  have r: "showNumber (round2 (divide_num 1688849860263936 (1024 ^ 5))) = ''1.5''" by code_simp
  have "formatBytes 1688849860263936 =
      showNumber (round2 (divide_num 1688849860263936 (1024 ^ 5))) @ '' '' @ unitName 5"
    unfolding formatBytes_def Let_def l by simp
  then show ?thesis by (simp only: r) (simp add: unitName_def sizes_def)
qed

section \<open>Collectors\<close>

lemma sumTicks_sums: "sumTicks cpus (i, t) = (i + idleTicks cpus, t + allTicks cpus)"
  by (induction cpus arbitrary: i t) (simp_all add: idleTicks_def allTicks_def)

lemma idleTicks_le: "idleTicks cpus \<le> allTicks cpus"
  by (induction cpus) (simp_all add: idleTicks_def allTicks_def)

text \<open>
  Claim C8, as amended. For total and free byte counts as the operating system reports
  them (a positive total below \<open>2\<^sup>5\<^sup>3\<close>, which a double holds exactly, and no more free than
  total), the snapshot of \<^const>\<open>getMemoryInfo\<close> has \<open>used = total - free\<close>, and \<open>usedPercent\<close>
  is a number of hundredths that differs from \<open>100 * used / total\<close> by at most half a
  hundredth and \<open>2\<^sup>-\<^sup>4\<^sup>5\<close>, the rounding error of the quotient and the product taken in
  doubles. The collector has no error path: it is a total function to the record of the
  snapshot.
\<close>

theorem getMemoryInfo_used:
  assumes "0 < totalmem" and "totalmem < 2 ^ 53" and "freemem \<le> totalmem"
  shows "used (getMemoryInfo totalmem freemem) = int totalmem - int freemem
    \<and> (\<exists>k. usedPercent (getMemoryInfo totalmem freemem) = Fin (of_int k / 100)
          \<and> \<bar>of_int k / 100
               - 100 * (of_int (used (getMemoryInfo totalmem freemem)) / of_nat totalmem :: rat)\<bar>
              \<le> 1 / 200 + 1 / 2 ^ 45)"
proof -
  define q :: rat where "q = of_int (int totalmem - int freemem) / of_nat totalmem"
  have u: "used (getMemoryInfo totalmem freemem) = int totalmem - int freemem"
    by (simp add: getMemoryInfo_def Let_def)
  have q0: "0 \<le> q" using assms by (simp add: q_def)
  have q1: "q \<le> 1" using assms by (simp add: q_def divide_le_eq_1)
  from q0 q1 have "\<bar>q\<bar> \<le> 200" by simp
  from fl_step [OF this] obtain y where
    y: "fl q = Fin y" "\<bar>y - q\<bar> \<le> \<bar>q\<bar> / 2 ^ 53 + 1 / 2 ^ 100" by blast
  have c: "(1::rat) / 2 ^ 53 \<le> 1 / 2" "(1::rat) / 2 ^ 100 \<le> 1 / 2" by simp_all
  have qb: "\<bar>q\<bar> / 2 ^ 53 \<le> 1 / 2 ^ 53" using q0 q1 by (simp add: divide_right_mono)
  with y(2) c q0 q1 have y2: "\<bar>y\<bar> \<le> 2" by linarith
  from times100_round2 [OF y2] obtain k where
    k: "round2 (times100 (Fin y)) = Fin (of_int k / 100)"
       "\<bar>of_int k / 100 - 100 * y\<bar> \<le> 1 / 200 + 100 * \<bar>y\<bar> / 2 ^ 53 + 1 / 2 ^ 100" by blast
  have "usedPercent (getMemoryInfo totalmem freemem) = round2 (times100 (fl q))"
    using assms by (simp add: getMemoryInfo_def Let_def divide_num_def q_def)
  with y(1) k(1) have p: "usedPercent (getMemoryInfo totalmem freemem) = Fin (of_int k / 100)"
    by simp
  have yb: "\<bar>y\<bar> \<le> 1 + 1 / 2 ^ 53 + 1 / 2 ^ 100" using y(2) qb q0 q1 by linarith
  have e: "of_int k / 100 - 100 * q = (of_int k / 100 - 100 * y) + 100 * (y - q)"
    by (simp add: algebra_simps)
  have "\<bar>of_int k / 100 - 100 * q\<bar> \<le> \<bar>of_int k / 100 - 100 * y\<bar> + \<bar>100 * (y - q)\<bar>"
    unfolding e by (rule abs_triangle_ineq)
  also have "\<bar>100 * (y - q)\<bar> = 100 * \<bar>y - q\<bar>" by (simp only: abs_mult abs_numeral)
  finally have t: "\<bar>of_int k / 100 - 100 * q\<bar> \<le> \<bar>of_int k / 100 - 100 * y\<bar> + 100 * \<bar>y - q\<bar>" .
  define a where "a = \<bar>of_int k / 100 - 100 * y\<bar>"
  define b where "b = \<bar>y - q\<bar>"
  define c where "c = \<bar>y\<bar>"
  define g where "g = \<bar>of_int k / 100 - 100 * q\<bar>"
  have "g \<le> a + 100 * b" using t by (simp add: a_def b_def g_def)
  moreover have "a \<le> 1 / 200 + 100 * c / 2 ^ 53 + 1 / 2 ^ 100" using k(2) by (simp add: a_def c_def)
  moreover have "b \<le> 1 / 2 ^ 53 + 1 / 2 ^ 100" using y(2) qb by (simp add: b_def)
  moreover have "c \<le> 1 + 1 / 2 ^ 53 + 1 / 2 ^ 100" using yb by (simp add: c_def)
  ultimately have "g \<le> 1 / 200 + 1 / 2 ^ 45" by simp
  then have r: "\<bar>of_int k / 100 - 100 * q\<bar> \<le> 1 / 200 + 1 / 2 ^ 45" by (simp add: g_def)
  show ?thesis unfolding u using p r [unfolded q_def] by blast
qed

theorem getMemoryInfo_used_witness:
  "used (getMemoryInfo 16000 4000) = int 16000 - int 4000
    \<and> (\<exists>k. usedPercent (getMemoryInfo 16000 4000) = Fin (of_int k / 100)
          \<and> \<bar>of_int k / 100
               - 100 * (of_int (used (getMemoryInfo 16000 4000)) / of_nat 16000 :: rat)\<bar>
              \<le> 1 / 200 + 1 / 2 ^ 45)
    \<and> usedPercent (getMemoryInfo 16000 4000) = Fin 75"
proof -
  have h: "(0::nat) < 16000" "(16000::nat) < 2 ^ 53" "(4000::nat) \<le> 16000" by simp_all
  have "usedPercent (getMemoryInfo 16000 4000) = round2 (times100 (divide_num 12000 16000))"
    by (simp add: getMemoryInfo_def Let_def)
  also have "\<dots> = Fin 75" by code_simp
  finally have e: "usedPercent (getMemoryInfo 16000 4000) = Fin 75" .
  note t = getMemoryInfo_used [OF h]
  from conjunct1 [OF t] conjunct2 [OF t] e show ?thesis by (intro conjI)
qed

text \<open>
  The percentage is not always \<open>100 * used / total\<close> rounded to two decimals. With 97 of
  160 bytes used the exact percentage is 60.625, and with 6963609600 of 8192000000 bytes
  it is 85.005; the doubles computed lie just below, and the snapshots have 60.62 and 85
  where rounding the exact value gives 60.63 and 85.01. With 480727095795 of 515884633573
  bytes used the exact percentage is below 93.185 and the double is not: the snapshot has
  93.19, not the nearest hundredth 93.18.
\<close>

theorem getMemoryInfo_used_counterexample:
  "usedPercent (getMemoryInfo 160 63) = Fin (6062 / 100)
   \<and> roundTo2 (100 * (of_int (used (getMemoryInfo 160 63)) / of_nat 160)) = 6063 / 100
   \<and> usedPercent (getMemoryInfo 8192000000 1228390400) = Fin 85
   \<and> roundTo2 (100 * (of_int (used (getMemoryInfo 8192000000 1228390400)) / of_nat 8192000000))
       = 8501 / 100
   \<and> usedPercent (getMemoryInfo 515884633573 35157537778) = Fin (9319 / 100)
   \<and> roundTo2 (100 * (of_int (used (getMemoryInfo 515884633573 35157537778))
                        / of_nat 515884633573)) = 9318 / 100"
proof -
  have "usedPercent (getMemoryInfo 160 63) = round2 (times100 (divide_num 97 160))"
    by (simp add: getMemoryInfo_def Let_def)
  also have "\<dots> = Fin (6062 / 100)" by code_simp
  finally have a: "usedPercent (getMemoryInfo 160 63) = Fin (6062 / 100)" .
  have "roundTo2 (100 * (of_int (used (getMemoryInfo 160 63)) / of_nat 160)) = roundTo2 (100 * (97 / 160))"
    by (simp add: getMemoryInfo_def Let_def)
  also have "\<dots> = 6063 / 100" by code_simp
  finally have b: "roundTo2 (100 * (of_int (used (getMemoryInfo 160 63)) / of_nat 160)) = 6063 / 100" .
  have "usedPercent (getMemoryInfo 8192000000 1228390400)
      = round2 (times100 (divide_num 6963609600 8192000000))"
    by (simp add: getMemoryInfo_def Let_def)
  also have "\<dots> = Fin 85" by code_simp
  finally have c: "usedPercent (getMemoryInfo 8192000000 1228390400) = Fin 85" .
  have "roundTo2 (100 * (of_int (used (getMemoryInfo 8192000000 1228390400)) / of_nat 8192000000))
      = roundTo2 (100 * (6963609600 / 8192000000))"
    by (simp add: getMemoryInfo_def Let_def)
  also have "\<dots> = 8501 / 100" by code_simp
  finally have d: "roundTo2 (100 * (of_int (used (getMemoryInfo 8192000000 1228390400))
      / of_nat 8192000000)) = 8501 / 100" .
  have "usedPercent (getMemoryInfo 515884633573 35157537778)
      = round2 (times100 (divide_num 480727095795 515884633573))"
    by (simp add: getMemoryInfo_def Let_def)
  also have "\<dots> = Fin (9319 / 100)" by code_simp
  finally have e: "usedPercent (getMemoryInfo 515884633573 35157537778) = Fin (9319 / 100)" .
  have "roundTo2 (100 * (of_int (used (getMemoryInfo 515884633573 35157537778)) / of_nat 515884633573))
      = roundTo2 (100 * (480727095795 / 515884633573))"
    by (simp add: getMemoryInfo_def Let_def)
  also have "\<dots> = 9318 / 100" by code_simp
  finally have f: "roundTo2 (100 * (of_int (used (getMemoryInfo 515884633573 35157537778))
      / of_nat 515884633573)) = 9318 / 100" .
  from a b c d e f show ?thesis by (intro conjI)
qed

text \<open>
  Claim C9, as amended. The usage percentage of a CPU snapshot is taken from one reading
  of the counters (the reading \<^verbatim>\<open>getCPUUsage\<close> takes), with \<open>idle\<close> and \<open>all\<close> the idle ticks
  and the ticks of all categories summed over the cores, below \<open>2\<^sup>5\<^sup>3\<close>; no second reading
  enters it. With no tick at all (no core) the quotient is \<open>0 / 0\<close> and the percentage is
  \<^verbatim>\<open>NaN\<close>. Otherwise it is a number of hundredths that differs from
  \<open>100 * (1 - idle / all)\<close> by at most half a hundredth and \<open>2\<^sup>-\<^sup>4\<^sup>4\<close>, the rounding error of
  the quotient, the difference and the product taken in doubles. The model name is
  \<^verbatim>\<open>Unknown\<close> when there is no core or the first core has no model name, and the name of
  the first core otherwise.
\<close>

theorem getCPUInfo_usage:
  assumes "allTicks cpus' < 2 ^ 53"
  shows "(if allTicks cpus' = 0 then usagePercent (getCPUInfo cpus loadavg cpus') = NaN
      else \<exists>k. usagePercent (getCPUInfo cpus loadavg cpus') = Fin (of_int k / 100)
             \<and> \<bar>of_int k / 100
                  - 100 * (1 - of_nat (idleTicks cpus') / of_nat (allTicks cpus') :: rat)\<bar>
                 \<le> 1 / 200 + 1 / 2 ^ 44)
   \<and> model (getCPUInfo cpus loadavg cpus') =
     (if cpus = [] \<or> os_model (hd cpus) = [] then ''Unknown'' else os_model (hd cpus))"
proof -
  define q :: rat where "q = of_nat (idleTicks cpus') / of_nat (allTicks cpus')"
  have m: "model (getCPUInfo cpus loadavg cpus') =
     (if cpus = [] \<or> os_model (hd cpus) = [] then ''Unknown'' else os_model (hd cpus))"
    by (cases cpus) (simp_all add: getCPUInfo_def)
  have u: "usagePercent (getCPUInfo cpus loadavg cpus') =
      round2 (times100 (one_minus (divide_num (of_nat (idleTicks cpus')) (of_nat (allTicks cpus')))))"
    by (simp add: getCPUInfo_def getCPUUsage_def sumTicks_sums)
  show ?thesis
  proof (cases "allTicks cpus' = 0")
    case True
    with idleTicks_le [of cpus'] have "idleTicks cpus' = 0" by simp
    with True u have "usagePercent (getCPUInfo cpus loadavg cpus') = NaN"
      by (simp add: divide_num_def)
    with True m show ?thesis by simp
  next
    case False
    have q0: "0 \<le> q" by (simp add: q_def)
    have q1: "q \<le> 1" using idleTicks_le [of cpus'] False by (simp add: q_def divide_le_eq_1)
    from q0 q1 have "\<bar>q\<bar> \<le> 200" by simp
    from fl_step [OF this] obtain y where
      y: "fl q = Fin y" "\<bar>y - q\<bar> \<le> \<bar>q\<bar> / 2 ^ 53 + 1 / 2 ^ 100" by blast
    have c: "(1::rat) / 2 ^ 53 \<le> 1 / 2" "(1::rat) / 2 ^ 100 \<le> 1 / 2" by simp_all
    have qb: "\<bar>q\<bar> / 2 ^ 53 \<le> 1 / 2 ^ 53" using q0 q1 by (simp add: divide_right_mono)
    from y(2) qb have yq: "\<bar>y - q\<bar> \<le> 1 / 2 ^ 53 + 1 / 2 ^ 100" by linarith
    with c q0 q1 have d1: "\<bar>1 - y\<bar> \<le> 1 + 1 / 2 ^ 53 + 1 / 2 ^ 100" by linarith
    with c have "\<bar>1 - y\<bar> \<le> 200" by linarith
    from fl_step [OF this] obtain z where
      z: "fl (1 - y) = Fin z" "\<bar>z - (1 - y)\<bar> \<le> \<bar>1 - y\<bar> / 2 ^ 53 + 1 / 2 ^ 100" by blast
    have db: "\<bar>1 - y\<bar> / 2 ^ 53 \<le> (1 + 1 / 2 ^ 53 + 1 / 2 ^ 100) / 2 ^ 53"
      using d1 by (rule divide_right_mono) simp
    from z(2) db have zy: "\<bar>z - (1 - y)\<bar> \<le> (1 + 1 / 2 ^ 53 + 1 / 2 ^ 100) / 2 ^ 53 + 1 / 2 ^ 100"
      by linarith
    have "\<bar>z\<bar> \<le> (1 + 1 / 2 ^ 53 + 1 / 2 ^ 100)
        + ((1 + 1 / 2 ^ 53 + 1 / 2 ^ 100) / 2 ^ 53 + 1 / 2 ^ 100)"
      using zy d1 by (rule abs_le_via)
    also have "\<dots> \<le> 1 + 1 / 2 ^ 51" by simp
    finally have zb: "\<bar>z\<bar> \<le> 1 + 1 / 2 ^ 51" .
    then have z2: "\<bar>z\<bar> \<le> 2" by simp
    from times100_round2 [OF z2] obtain k where
      k: "round2 (times100 (Fin z)) = Fin (of_int k / 100)"
         "\<bar>of_int k / 100 - 100 * z\<bar> \<le> 1 / 200 + 100 * \<bar>z\<bar> / 2 ^ 53 + 1 / 2 ^ 100" by blast
    have "divide_num (of_nat (idleTicks cpus')) (of_nat (allTicks cpus')) = fl q"
      using False by (simp add: divide_num_def q_def)
    with u y(1) z(1) k(1) have p: "usagePercent (getCPUInfo cpus loadavg cpus') = Fin (of_int k / 100)"
      by simp
    have e: "of_int k / 100 - 100 * (1 - q)
        = (of_int k / 100 - 100 * z) + (100 * (z - (1 - y)) + 100 * (q - y))"
      by (simp add: algebra_simps)
    have "\<bar>of_int k / 100 - 100 * (1 - q)\<bar>
        \<le> \<bar>of_int k / 100 - 100 * z\<bar> + \<bar>100 * (z - (1 - y)) + 100 * (q - y)\<bar>"
      unfolding e by (rule abs_triangle_ineq)
    also have "\<bar>100 * (z - (1 - y)) + 100 * (q - y)\<bar>
        \<le> \<bar>100 * (z - (1 - y))\<bar> + \<bar>100 * (q - y)\<bar>" by (rule abs_triangle_ineq)
    also have "\<bar>100 * (z - (1 - y))\<bar> = 100 * \<bar>z - (1 - y)\<bar>" by (simp only: abs_mult abs_numeral)
    also have "\<bar>100 * (q - y)\<bar> = 100 * \<bar>y - q\<bar>" by (simp only: abs_mult abs_numeral abs_minus_commute)
    finally have t: "\<bar>of_int k / 100 - 100 * (1 - q)\<bar>
        \<le> \<bar>of_int k / 100 - 100 * z\<bar> + (100 * \<bar>z - (1 - y)\<bar> + 100 * \<bar>y - q\<bar>)" by simp
    define a where "a = \<bar>of_int k / 100 - 100 * z\<bar>"
    define b1 where "b1 = \<bar>z - (1 - y)\<bar>"
    define b2 where "b2 = \<bar>y - q\<bar>"
    define c where "c = \<bar>z\<bar>"
    define g where "g = \<bar>of_int k / 100 - 100 * (1 - q)\<bar>"
    have "g \<le> a + (100 * b1 + 100 * b2)" using t by (simp only: a_def b1_def b2_def g_def)
    moreover have "a \<le> 1 / 200 + 100 * c / 2 ^ 53 + 1 / 2 ^ 100" using k(2) by (simp only: a_def c_def)
    moreover have "b1 \<le> (1 + 1 / 2 ^ 53 + 1 / 2 ^ 100) / 2 ^ 53 + 1 / 2 ^ 100" using zy by (simp only: b1_def)
    moreover have "b2 \<le> 1 / 2 ^ 53 + 1 / 2 ^ 100" using yq by (simp only: b2_def)
    moreover have "c \<le> 1 + 1 / 2 ^ 51" using zb by (simp only: c_def)
    ultimately have "g \<le> 1 / 200 + 1 / 2 ^ 44" by simp
    then have r: "\<bar>of_int k / 100 - 100 * (1 - q)\<bar> \<le> 1 / 200 + 1 / 2 ^ 44" by (simp only: g_def)
    from p r [unfolded q_def] have "\<exists>k. usagePercent (getCPUInfo cpus loadavg cpus') = Fin (of_int k / 100)
             \<and> \<bar>of_int k / 100
                  - 100 * (1 - of_nat (idleTicks cpus') / of_nat (allTicks cpus') :: rat)\<bar>
                 \<le> 1 / 200 + 1 / 2 ^ 44" by blast
    with False m show ?thesis by simp
  qed
qed

theorem getCPUInfo_usage_witness:
  "(\<exists>k. usagePercent (getCPUInfo [exampleCore] [] [exampleCore]) = Fin (of_int k / 100)
        \<and> \<bar>of_int k / 100
             - 100 * (1 - of_nat (idleTicks [exampleCore]) / of_nat (allTicks [exampleCore]) :: rat)\<bar>
            \<le> 1 / 200 + 1 / 2 ^ 44)
   \<and> usagePercent (getCPUInfo [exampleCore] [] [exampleCore]) = Fin 65
   \<and> model (getCPUInfo [exampleCore] [] [exampleCore]) = ''Example CPU''
   \<and> usagePercent (getCPUInfo [] [] []) = NaN
   \<and> model (getCPUInfo [] [] []) = ''Unknown''"
proof -
  have t: "allTicks [exampleCore] = 100" "idleTicks [exampleCore] = 35"
    by (simp_all add: allTicks_def idleTicks_def exampleCore_def)
  have h: "allTicks [exampleCore] < 2 ^ 53" by (simp add: t)
  have nz: "allTicks [exampleCore] \<noteq> 0" by (simp add: t)
  note w = getCPUInfo_usage [where cpus' = "[exampleCore]" and cpus = "[exampleCore]"
      and loadavg = "[]", OF h]
  note a = conjunct1 [OF w, unfolded if_not_P [OF nz]]
  from conjunct2 [OF w] have m: "model (getCPUInfo [exampleCore] [] [exampleCore]) = ''Example CPU''"
    by (simp add: exampleCore_def)
  have "usagePercent (getCPUInfo [exampleCore] [] [exampleCore])
      = round2 (times100 (one_minus (divide_num 35 100)))"
    by (simp add: getCPUInfo_def getCPUUsage_def exampleCore_def)
  also have "\<dots> = Fin 65" by code_simp
  finally have e: "usagePercent (getCPUInfo [exampleCore] [] [exampleCore]) = Fin 65" .
  have h0: "allTicks [] < 2 ^ 53" by (simp add: allTicks_def)
  have z: "allTicks [] = 0" by (simp add: allTicks_def)
  note w0 = getCPUInfo_usage [where cpus' = "[]" and cpus = "[]" and loadavg = "[]", OF h0]
  note n = conjunct1 [OF w0, unfolded if_P [OF z]]
  from conjunct2 [OF w0] have u: "model (getCPUInfo [] [] []) = ''Unknown''" by simp
  from a e m n u show ?thesis by (intro conjI)
qed

text \<open>
  The percentage is not always \<open>100 * (1 - idle / all)\<close> rounded to two decimals. With 63
  idle ticks of 160 the exact percentage is 60.625 and the snapshot has 60.62, not 60.63.
  With 717040461691 idle ticks of 853975420343 the exact percentage is below 16.035 and
  the double is not: the snapshot has 16.04, not the nearest hundredth 16.03.
\<close>

theorem getCPUInfo_usage_counterexample:
  "usagePercent (getCPUInfo [shortCore] [] [shortCore]) = Fin (6062 / 100)
   \<and> roundTo2 (100 * (1 - of_nat (idleTicks [shortCore]) / of_nat (allTicks [shortCore])))
       = 6063 / 100
   \<and> usagePercent (getCPUInfo [longCore] [] [longCore]) = Fin (1604 / 100)
   \<and> roundTo2 (100 * (1 - of_nat (idleTicks [longCore]) / of_nat (allTicks [longCore])))
       = 1603 / 100"
proof -
  have s: "allTicks [shortCore] = 160" "idleTicks [shortCore] = 63"
    by (simp_all add: allTicks_def idleTicks_def shortCore_def)
  have l: "allTicks [longCore] = 853975420343" "idleTicks [longCore] = 717040461691"
    by (simp_all add: allTicks_def idleTicks_def longCore_def)
  have "usagePercent (getCPUInfo [shortCore] [] [shortCore])
      = round2 (times100 (one_minus (divide_num 63 160)))"
    by (simp add: getCPUInfo_def getCPUUsage_def shortCore_def)
  also have "\<dots> = Fin (6062 / 100)" by code_simp
  finally have a: "usagePercent (getCPUInfo [shortCore] [] [shortCore]) = Fin (6062 / 100)" .
  have "roundTo2 (100 * (1 - of_nat (idleTicks [shortCore]) / of_nat (allTicks [shortCore])))
      = roundTo2 (100 * (1 - 63 / 160))" by (simp only: s of_nat_numeral)
  also have "\<dots> = 6063 / 100" by code_simp
  finally have b: "roundTo2 (100 * (1 - of_nat (idleTicks [shortCore]) / of_nat (allTicks [shortCore])))
      = 6063 / 100" .
  have "usagePercent (getCPUInfo [longCore] [] [longCore])
      = round2 (times100 (one_minus (divide_num 717040461691 853975420343)))"
    by (simp add: getCPUInfo_def getCPUUsage_def longCore_def)
  also have "\<dots> = Fin (1604 / 100)" by code_simp
  finally have c: "usagePercent (getCPUInfo [longCore] [] [longCore]) = Fin (1604 / 100)" .
  have "roundTo2 (100 * (1 - of_nat (idleTicks [longCore]) / of_nat (allTicks [longCore])))
      = roundTo2 (100 * (1 - 717040461691 / 853975420343))" by (simp only: l of_nat_numeral)
  also have "\<dots> = 1603 / 100" by code_simp
  finally have d: "roundTo2 (100 * (1 - of_nat (idleTicks [longCore]) / of_nat (allTicks [longCore])))
      = 1603 / 100" .
  from a b c d show ?thesis by (intro conjI)
qed

section \<open>SystemLogger\<close>

lemma thrown_None: "thrown ls e = None \<longleftrightarrow> (\<forall>l\<in>set ls. snd (l e) = None)"
  by (induction ls) (auto split: option.splits)

lemma emitted_append: "emitted (xs @ ys) = emitted xs @ emitted ys"
  by (induction xs rule: emitted.induct) simp_all

lemma emitted_ConsoleLog: "emitted (map ConsoleLog out) = []"
  by (induction out) simp_all

lemma newEvents_append: "trace w' = trace w @ new \<Longrightarrow> newEvents w w' = new"
  by (simp add: newEvents_def)

lemma callListeners_result:
  "callListeners ls e w =
     ((case thrown ls e of None \<Rightarrow> Inr () | Some x \<Rightarrow> Inl x),
      w\<lparr>trace := trace w @ map ConsoleLog (printed ls e)\<rparr>)"
proof (induction ls arbitrary: w)
  case Nil
  then show ?case by (simp add: printed_def)
next
  case (Cons l ls)
  show ?case
  proof (cases "snd (l e)")
    case None
    then show ?thesis using Cons [of "w\<lparr>trace := trace w @ map ConsoleLog (fst (l e))\<rparr>"]
      by (simp add: printed_def)
  next
    case (Some x)
    then show ?thesis by (simp add: printed_def)
  qed
qed

text \<open>What a call of \<^verbatim>\<open>log\<close> returns and what it leaves behind, in one equation.\<close>

lemma logger_log_result:
  "logger_log lg msg type' w =
     ((case thrown (listeners lg)
              \<lparr>timestamp = clock w (reads w), type = levelOr type', message = msg\<rparr> of
         None \<Rightarrow> Inr () | Some x \<Rightarrow> Inl x),
      w\<lparr>reads := Suc (reads w),
        files := (files w)(logFile lg \<mapsto>
          (case files w (logFile lg) of None \<Rightarrow> [] | Some old \<Rightarrow> old)
            @ logLine (clock w (reads w)) (levelOr type') msg @ [LF]),
        trace := trace w @
          [FileAppend (logFile lg) (logLine (clock w (reads w)) (levelOr type') msg @ [LF]),
           Emit \<lparr>timestamp = clock w (reads w), type = levelOr type', message = msg\<rparr>]
          @ map ConsoleLog
              (printed (listeners lg)
                 \<lparr>timestamp = clock w (reads w), type = levelOr type', message = msg\<rparr>)\<rparr>)"
  by (cases "files w (logFile lg)")
     (simp_all add: logger_log_def toISOString_def appendFileSync_def emit_def
        callListeners_result logLine_def levelOr_def Let_def)

text \<open>
  Claim C4, as amended. A call of \<^verbatim>\<open>log\<close> appends the line to the file before it notifies
  the listeners, and the line is in the file whatever the listeners do. The call returns
  normally exactly when no listener throws for the entry; otherwise the exception of the
  first listener that throws leaves \<^verbatim>\<open>log\<close> to its caller, and the listeners registered
  after that one are not notified.
\<close>

theorem logger_log_append_then_notify:
  "(let e = \<lparr>timestamp = clock w (reads w), type = levelOr type', message = msg\<rparr>;
        line = logLine (clock w (reads w)) (levelOr type') msg @ [LF];
        r = logger_log lg msg type' w
    in trace (snd r) =
         trace w @ [FileAppend (logFile lg) line, Emit e]
           @ map ConsoleLog (printed (listeners lg) e)
     \<and> fileText (logFile lg) (snd r) = fileText (logFile lg) w @ line
     \<and> readFileSync (logFile lg) (snd r) \<noteq> None
     \<and> fst r = (case thrown (listeners lg) e of None \<Rightarrow> Inr () | Some x \<Rightarrow> Inl x)
     \<and> (fst r = Inr () \<longleftrightarrow> (\<forall>l\<in>set (listeners lg). snd (l e) = None)))"
proof -
  let ?e = "\<lparr>timestamp = clock w (reads w), type = levelOr type', message = msg\<rparr>"
  have "(case thrown (listeners lg) ?e of None \<Rightarrow> Inr () | Some x \<Rightarrow> Inl x) = (Inr () :: exn + unit)
      \<longleftrightarrow> (\<forall>l\<in>set (listeners lg). snd (l ?e) = None)"
    by (cases "thrown (listeners lg) ?e") (simp_all add: thrown_None [symmetric])
  then show ?thesis
    by (simp add: logger_log_result Let_def fileText_def readFileSync_def split: option.splits)
qed

theorem logger_log_append_then_notify_witness:
  "fst (logger_log logger ''hello'' None exampleWorld) = Inr ()
   \<and> trace (snd (logger_log logger ''hello'' None exampleWorld)) =
       [FileAppend ''./logs/system-monitor.log''
          (''2024-01-01T12:00:00.000Z [INFO] hello'' @ [LF]),
        Emit \<lparr>timestamp = ''2024-01-01T12:00:00.000Z'', type = ''INFO'', message = ''hello''\<rparr>,
        ConsoleLog ''[INFO] hello'']
   \<and> fileText ''./logs/system-monitor.log'' (snd (logger_log logger ''hello'' None exampleWorld)) =
       ''2024-01-01T12:00:00.000Z [INFO] hello'' @ [LF]"
  using logger_log_append_then_notify [of exampleWorld None "''hello''" logger]
  by (simp add: Let_def exampleWorld_def logger_def on_logged_def newSystemLogger_def
        consoleMirror_def levelOr_def logLine_def printed_def fileText_def readFileSync_def)

text \<open>
  The claim as it was stated, that an exception of a listener is never thrown into the
  caller of \<^verbatim>\<open>log\<close>, fails for a logger with a listener that throws: the line is
  appended, and the exception leaves \<^verbatim>\<open>log\<close>.
\<close>

theorem logger_log_listener_counterexample:
  "fst (logger_log (on_logged failingListener newSystemLogger) ''hello'' None exampleWorld)
     = Inl (ListenerError ''boom'')
   \<and> fileText ''./logs/system-monitor.log''
       (snd (logger_log (on_logged failingListener newSystemLogger) ''hello'' None exampleWorld))
     = ''2024-01-01T12:00:00.000Z [INFO] hello'' @ [LF]"
  by (simp add: logger_log_result on_logged_def newSystemLogger_def failingListener_def
        exampleWorld_def levelOr_def logLine_def fileText_def readFileSync_def)

subsection \<open>The lines of the log file\<close>

lemma perform_world:
  "snd (perform lg c w) =
     w\<lparr>reads := Suc (reads w),
       files := (files w)(logFile lg \<mapsto>
         fileText (logFile lg) w @ logLine (clock w (reads w)) (levelOf c) (messageOf c) @ [LF]),
       trace := trace (snd (perform lg c w))\<rparr>"
  by (cases c)
     (simp_all add: logger_log_result logger_error_def logger_warn_def logger_info_def
        fileText_def readFileSync_def levelOr_def)

lemma perform_fileText:
  "fileText (logFile lg) (snd (perform lg c w)) =
     fileText (logFile lg) w @ logLine (clock w (reads w)) (levelOf c) (messageOf c) @ [LF]"
  by (subst perform_world) (simp add: fileText_def readFileSync_def)

lemma perform_clock: "clock (snd (perform lg c w)) = clock w"
  by (subst perform_world) simp

lemma perform_reads: "reads (snd (perform lg c w)) = Suc (reads w)"
  by (subst perform_world) simp

lemma performAll_fileText:
  "fileText (logFile lg) (performAll lg cs w) =
     fileText (logFile lg) w
       @ concat (map (\<lambda>l. l @ [LF]) (expectedLines (clock w) (reads w) cs))"
  by (induction cs arbitrary: w) (simp_all add: perform_fileText perform_clock perform_reads)

lemma nonEmptyLines_lines:
  assumes "\<forall>l\<in>set ls. LF \<notin> set l \<and> l \<noteq> []"
  shows "nonEmptyLines (concat (map (\<lambda>l. l @ [LF]) ls)) = ls"
proof -
  from assms have "split_str (concat (map (\<lambda>l. l @ [LF]) ls)) LF = ls @ [[]]"
    by (simp add: split_str_lines)
  moreover from assms have "filter (\<lambda>line. line \<noteq> []) ls = ls" by (simp add: filter_id_conv)
  ultimately show ?thesis by (simp add: nonEmptyLines_def)
qed

lemma expectedLines_set:
  "l \<in> set (expectedLines clk n cs) \<Longrightarrow>
     \<exists>k c. c \<in> set cs \<and> l = logLine (clk k) (levelOf c) (messageOf c)"
proof (induction cs arbitrary: n)
  case Nil
  then show ?case by simp
next
  case (Cons a cs)
  from Cons.prems consider "l = logLine (clk n) (levelOf a) (messageOf a)"
    | "l \<in> set (expectedLines clk (Suc n) cs)" by auto
  then show ?case
  proof cases
    case 1
    then show ?thesis by (intro exI [of _ n] exI [of _ a]) simp
  next
    case 2
    with Cons.IH obtain k c where "c \<in> set cs" "l = logLine (clk k) (levelOf c) (messageOf c)"
      by blast
    then show ?thesis by (intro exI [of _ k] exI [of _ c]) simp
  qed
qed

lemma length_expectedLines: "length (expectedLines clk n cs) = length cs"
  by (induction cs arbitrary: n) simp_all

lemma isoTimestamp_no_LF:
  assumes "isoTimestamp s"
  shows "LF \<notin> set s"
proof
  assume "LF \<in> set s"
  then obtain i where i: "i < length s" "s ! i = LF" by (auto simp: in_set_conv_nth)
  let ?p = "''dddd-dd-ddTdd:dd:dd.dddZ''"
  from assms have len: "length ?p = length s"
    and all: "\<forall>i<length ?p. (if ?p ! i = CHR ''d'' then s ! i \<in> set ''0123456789'' else s ! i = ?p ! i)"
    unfolding isoTimestamp_def list_all2_conv_all_nth by blast+
  from i len all have a: "if ?p ! i = CHR ''d'' then LF \<in> set ''0123456789'' else LF = ?p ! i"
    by metis
  have "?p ! i \<in> set ?p" using i len by (metis nth_mem)
  with a show False by (auto split: if_splits)
qed

text \<open>
  Claim C6, as amended. From an empty log file (or none), after \<open>N\<close> calls of \<^verbatim>\<open>log\<close> and
  its wrappers whose messages and levels contain no newline, with a clock that gives ISO
  timestamps, the file is the \<open>N\<close> lines \<^verbatim>\<open><timestamp> [<LEVEL>] <message>\<close> in the order of
  the calls, each followed by a newline, and these are its lines that are not empty.
\<close>

theorem log_file_lines:
  assumes empty: "readFileSync (logFile lg) w = None \<or> readFileSync (logFile lg) w = Some []"
    and msgs: "\<forall>c\<in>set cs. LF \<notin> set (messageOf c) \<and> LF \<notin> set (levelOf c)"
    and stamps: "\<forall>n. isoTimestamp (clock w n)"
  shows "fileText (logFile lg) (performAll lg cs w) =
           concat (map (\<lambda>l. l @ [LF]) (expectedLines (clock w) (reads w) cs))
       \<and> nonEmptyLines (fileText (logFile lg) (performAll lg cs w)) =
           expectedLines (clock w) (reads w) cs
       \<and> length (nonEmptyLines (fileText (logFile lg) (performAll lg cs w))) = length cs"
proof -
  let ?ls = "expectedLines (clock w) (reads w) cs"
  from empty have "fileText (logFile lg) w = []" by (auto simp: fileText_def)
  then have c: "fileText (logFile lg) (performAll lg cs w) = concat (map (\<lambda>l. l @ [LF]) ?ls)"
    by (simp add: performAll_fileText)
  have "\<forall>l\<in>set ?ls. LF \<notin> set l \<and> l \<noteq> []"
  proof
    fix l assume "l \<in> set ?ls"
    then obtain k c where kc: "c \<in> set cs" "l = logLine (clock w k) (levelOf c) (messageOf c)"
      using expectedLines_set by blast
    from stamps have "LF \<notin> set (clock w k)" by (simp add: isoTimestamp_no_LF)
    with kc msgs show "LF \<notin> set l \<and> l \<noteq> []" by (auto simp: logLine_def)
  qed
  then have "nonEmptyLines (concat (map (\<lambda>l. l @ [LF]) ?ls)) = ?ls" by (rule nonEmptyLines_lines)
  with c show ?thesis by (simp add: length_expectedLines)
qed

theorem log_file_lines_witness:
  "nonEmptyLines (fileText (logFile logger)
     (performAll logger [Info ''started'', Warn ''hot'', Log ''plain'' None, Error ''down'']
        exampleWorld)) =
     [''2024-01-01T12:00:00.000Z [INFO] started'', ''2024-01-01T12:00:00.000Z [WARN] hot'',
      ''2024-01-01T12:00:00.000Z [INFO] plain'', ''2024-01-01T12:00:00.000Z [ERROR] down'']"
proof -
  have e: "readFileSync (logFile logger) exampleWorld = None
      \<or> readFileSync (logFile logger) exampleWorld = Some []"
    by (simp add: readFileSync_def exampleWorld_def)
  have m: "\<forall>c\<in>set [Info ''started'', Warn ''hot'', Log ''plain'' None, Error ''down''].
      LF \<notin> set (messageOf c) \<and> LF \<notin> set (levelOf c)"
    by (simp add: levelOr_def)
  have s: "\<forall>n. isoTimestamp (clock exampleWorld n)"
    by (simp add: exampleWorld_def isoTimestamp_def)
  let ?cs = "[Info ''started'', Warn ''hot'', Log ''plain'' None, Error ''down'']"
  from log_file_lines [OF e m s]
  have "nonEmptyLines (fileText (logFile logger) (performAll logger ?cs exampleWorld)) =
      expectedLines (clock exampleWorld) (reads exampleWorld) ?cs"
    by (elim conjE)
  also have "\<dots> =
     [''2024-01-01T12:00:00.000Z [INFO] started'', ''2024-01-01T12:00:00.000Z [WARN] hot'',
      ''2024-01-01T12:00:00.000Z [INFO] plain'', ''2024-01-01T12:00:00.000Z [ERROR] down'']"
    by (simp add: exampleWorld_def logLine_def levelOr_def)
  finally show ?thesis .
qed

text \<open>
  The claim as it was stated, for any sequence of calls, fails for a message with a
  newline in it: one call leaves two lines that are not empty.
\<close>

theorem log_file_lines_counterexample:
  "nonEmptyLines (fileText (logFile logger)
     (performAll logger [Info (''first'' @ [LF] @ ''second'')] exampleWorld)) =
     [''2024-01-01T12:00:00.000Z [INFO] first'', ''second'']"
  by code_simp

section \<open>Alerts\<close>

lemma logger_log_quiet:
  assumes "\<forall>l\<in>set (listeners lg). \<forall>e. snd (l e) = None"
  shows "fst (logger_log lg msg (Some ty) w) = Inr ()"
    and "\<exists>new. trace (snd (logger_log lg msg (Some ty) w)) = trace w @ new
           \<and> emitted new = [(ty, msg)]"
proof -
  let ?e = "\<lparr>timestamp = clock w (reads w), type = ty, message = msg\<rparr>"
  from assms have "thrown (listeners lg) ?e = None" by (simp add: thrown_None)
  then show "fst (logger_log lg msg (Some ty) w) = Inr ()"
    by (simp add: logger_log_result levelOr_def)
  show "\<exists>new. trace (snd (logger_log lg msg (Some ty) w)) = trace w @ new
      \<and> emitted new = [(ty, msg)]"
    by (simp add: logger_log_result levelOr_def emitted_append emitted_ConsoleLog)
qed

text \<open>One of the two checks of \<^const>\<open>checkAlerts\<close>, for a logger whose listeners do not throw.\<close>

lemma alert_step:
  assumes q: "\<forall>l\<in>set (listeners lg). \<forall>e. snd (l e) = None"
    and r: "r = (if a then logger_error lg m1 w else if b then logger_warn lg m2 w else (Inr (), w))"
  shows "fst r = Inr () \<and> (\<exists>new. trace (snd r) = trace w @ new \<and>
           emitted new = (if a then [(''ERROR'', m1)] else if b then [(''WARN'', m2)] else []))"
proof -
  consider "a" | "\<not> a" "b" | "\<not> a" "\<not> b" by blast
  then show ?thesis
  proof cases
    case 1
    with r have "r = logger_log lg m1 (Some ''ERROR'') w" by (simp add: logger_error_def)
    with logger_log_quiet [OF q, of m1 "''ERROR''" w] 1 show ?thesis by simp
  next
    case 2
    with r have "r = logger_log lg m2 (Some ''WARN'') w" by (simp add: logger_warn_def)
    with logger_log_quiet [OF q, of m2 "''WARN''" w] 2 show ?thesis by simp
  next
    case 3
    with r show ?thesis by simp
  qed
qed

text \<open>
  Claim C1. For every pair of percentages, and a logger whose listeners do not throw (as
  the console mirror of the program), \<^const>\<open>checkAlerts\<close> returns normally and logs exactly
  the alerts of the specification: for the memory an ERROR-level CRITICAL alert exactly
  above 85 and a WARN-level WARNING alert exactly above 70 and up to 85, for the CPU the
  same with 80 and 60. The alerts for the memory depend on the memory percentage only and
  those for the CPU on the CPU percentage only; 70 for the memory and 60 for the CPU give
  no alert.
\<close>

theorem checkAlerts_thresholds:
  assumes q: "\<forall>l\<in>set (listeners lg). \<forall>e. snd (l e) = None"
  shows "fst (checkAlerts lg memory cpu w) = Inr ()
       \<and> emitted (newEvents w (snd (checkAlerts lg memory cpu w))) =
           memoryAlerts (usedPercent memory) @ cpuAlerts (usagePercent cpu)
       \<and> memoryAlerts (Fin 70) = [] \<and> cpuAlerts (Fin 60) = []"
proof -
  let ?mp = "usedPercent memory" and ?cp = "usagePercent cpu"
  define m1 where "m1 = siren @ '' CRITICAL: Memory usage at '' @ showNumber ?mp @ ''%''"
  define m2 where "m2 = warningSign @ ''  WARNING: Memory usage at '' @ showNumber ?mp @ ''%''"
  define c1 where "c1 = siren @ '' CRITICAL: CPU usage at '' @ showNumber ?cp @ ''%''"
  define c2 where "c2 = warningSign @ ''  WARNING: CPU usage at '' @ showNumber ?cp @ ''%''"
  define r1 where "r1 = (if gt ?mp 85 then logger_error lg m1 w
                         else if gt ?mp 70 then logger_warn lg m2 w else (Inr (), w))"
  define r2 where "r2 = (if gt ?cp 80 then logger_error lg c1 (snd r1)
                         else if gt ?cp 60 then logger_warn lg c2 (snd r1) else (Inr (), snd r1))"
  from alert_step [OF q r1_def] obtain new1 where
    1: "fst r1 = Inr ()" "trace (snd r1) = trace w @ new1"
       "emitted new1 =
          (if gt ?mp 85 then [(''ERROR'', m1)] else if gt ?mp 70 then [(''WARN'', m2)] else [])"
    by blast
  from alert_step [OF q r2_def] obtain new2 where
    2: "fst r2 = Inr ()" "trace (snd r2) = trace (snd r1) @ new2"
       "emitted new2 =
          (if gt ?cp 80 then [(''ERROR'', c1)] else if gt ?cp 60 then [(''WARN'', c2)] else [])"
    by blast
  have eq: "checkAlerts lg memory cpu w =
      (case r1 of
         (Inl x, w1) \<Rightarrow> (Inl x, w1)
       | (Inr u, w1) \<Rightarrow>
           (if gt ?cp 80 then logger_error lg c1 w1
            else if gt ?cp 60 then logger_warn lg c2 w1 else (Inr (), w1)))"
    unfolding checkAlerts_def r1_def m1_def m2_def c1_def c2_def by (rule refl)
  obtain w1 where w1: "r1 = (Inr (), w1)" using 1(1) by (cases r1) auto
  have "checkAlerts lg memory cpu w = r2" unfolding eq r2_def w1 by simp
  moreover from 1 2 have "trace (snd r2) = trace w @ (new1 @ new2)" by simp
  then have "newEvents w (snd r2) = new1 @ new2" by (rule newEvents_append)
  moreover have "emitted new1 = memoryAlerts ?mp"
    using 1(3) by (cases ?mp) (auto simp: memoryAlerts_def m1_def m2_def)
  moreover have "emitted new2 = cpuAlerts ?cp"
    using 2(3) by (cases ?cp) (auto simp: cpuAlerts_def c1_def c2_def)
  ultimately show ?thesis using 2(1)
    by (simp add: emitted_append memoryAlerts_def cpuAlerts_def)
qed

theorem checkAlerts_thresholds_witness:
  "fst (checkAlerts logger exampleMemory exampleCPU exampleWorld) = Inr ()
   \<and> emitted (newEvents exampleWorld
        (snd (checkAlerts logger exampleMemory exampleCPU exampleWorld))) =
       [(''ERROR'', siren @ '' CRITICAL: Memory usage at 90%''),
        (''WARN'', warningSign @ ''  WARNING: CPU usage at 65%'')]"
proof -
  have q: "\<forall>l\<in>set (listeners logger). \<forall>e. snd (l e) = None"
    by (simp add: logger_def on_logged_def newSystemLogger_def consoleMirror_def)
  have p: "usedPercent exampleMemory = Fin 90" "usagePercent exampleCPU = Fin 65"
    by (simp_all add: exampleMemory_def exampleCPU_def)
  have a: "memoryAlerts (Fin 90) @ cpuAlerts (Fin 65) =
       [(''ERROR'', siren @ '' CRITICAL: Memory usage at 90%''),
        (''WARN'', warningSign @ ''  WARNING: CPU usage at 65%'')]"
    by (simp add: memoryAlerts_def cpuAlerts_def showNat.simps digit_def Let_def)
  note t = checkAlerts_thresholds [OF q, of exampleMemory exampleCPU exampleWorld, unfolded p]
  from t have "fst (checkAlerts logger exampleMemory exampleCPU exampleWorld) = Inr ()"
    by (rule conjunct1)
  moreover from t have "emitted (newEvents exampleWorld
           (snd (checkAlerts logger exampleMemory exampleCPU exampleWorld))) =
       memoryAlerts (Fin 90) @ cpuAlerts (Fin 65)"
    by (rule conjunct1 [OF conjunct2])
  ultimately show ?thesis unfolding a by (rule conjI)
qed

section \<open>SystemMonitor: start and stop\<close>

lemma clearInterval_disarms: "h \<notin> fst ` set (timers (clearInterval (Some h) w))"
  by (auto simp: clearInterval_def)

lemma logger_info_timers: "timers (snd (logger_info lg msg w)) = timers w"
  by (simp add: logger_info_def logger_log_result)

text \<open>
  Claim C7. A second \<^verbatim>\<open>stop()\<close> right after a first returns normally and changes nothing,
  neither the monitor nor the world with its log. On an idle monitor \<^verbatim>\<open>stop()\<close> is a
  no-op. On a running one it disarms the timer, makes the monitor idle and logs one INFO
  entry, the stop event, as one more line of the file. \<^verbatim>\<open>start()\<close> on a running monitor is
  a no-op.
\<close>

theorem stopMonitoring_idempotent:
  "(case stopMonitoring lg this w of
      (r, this1, w1) \<Rightarrow> stopMonitoring lg this1 w1 = (Inr (), this1, w1))
   \<and> (\<not> monitoring this \<longrightarrow> stopMonitoring lg this w = (Inr (), this, w))
   \<and> (monitoring this \<longrightarrow>
        (case stopMonitoring lg this w of
           (r, this1, w1) \<Rightarrow>
             \<not> monitoring this1
             \<and> (\<forall>h. monitorInterval this = Some h \<longrightarrow> h \<notin> fst ` set (timers w1))
             \<and> emitted (newEvents w w1) = [(''INFO'', ''System monitoring stopped'')]
             \<and> fileText (logFile lg) w1 =
                 fileText (logFile lg) w
                   @ logLine (clock w (reads w)) ''INFO'' ''System monitoring stopped'' @ [LF]))
   \<and> (monitoring this \<longrightarrow> startMonitoring lg interval' this w = (Inr (), this, w))"
proof (intro conjI impI)
  show "case stopMonitoring lg this w of
      (r, this1, w1) \<Rightarrow> stopMonitoring lg this1 w1 = (Inr (), this1, w1)"
    by (simp add: stopMonitoring_def Let_def split: prod.splits)
next
  assume "\<not> monitoring this"
  then show "stopMonitoring lg this w = (Inr (), this, w)" by (simp add: stopMonitoring_def)
next
  assume m: "monitoring this"
  let ?w0 = "clearInterval (monitorInterval this) w"
  obtain r w1 where l: "logger_info lg ''System monitoring stopped'' ?w0 = (r, w1)"
    by (cases "logger_info lg ''System monitoring stopped'' ?w0")
  from m l have s: "stopMonitoring lg this w = (r, this\<lparr>monitoring := False\<rparr>, w1)"
    by (simp add: stopMonitoring_def Let_def)
  have w1: "w1 = snd (logger_info lg ''System monitoring stopped'' ?w0)" by (simp add: l)
  have t: "trace ?w0 = trace w" "files ?w0 = files w" "clock ?w0 = clock w" "reads ?w0 = reads w"
    by (simp_all add: clearInterval_def split: option.splits)
  have a: "\<forall>h. monitorInterval this = Some h \<longrightarrow> h \<notin> fst ` set (timers w1)"
    using clearInterval_disarms by (simp add: w1 logger_info_timers)
  have "trace w1 = trace w @
      [FileAppend (logFile lg)
         (logLine (clock w (reads w)) ''INFO'' ''System monitoring stopped'' @ [LF]),
       Emit \<lparr>timestamp = clock w (reads w), type = ''INFO'',
             message = ''System monitoring stopped''\<rparr>]
      @ map ConsoleLog (printed (listeners lg)
          \<lparr>timestamp = clock w (reads w), type = ''INFO'',
             message = ''System monitoring stopped''\<rparr>)"
    by (simp add: w1 logger_info_def logger_log_result t levelOr_def)
  then have b: "emitted (newEvents w w1) = [(''INFO'', ''System monitoring stopped'')]"
    by (simp add: newEvents_def emitted_append emitted_ConsoleLog)
  have c: "fileText (logFile lg) w1 =
      fileText (logFile lg) w
        @ logLine (clock w (reads w)) ''INFO'' ''System monitoring stopped'' @ [LF]"
    by (simp add: w1 logger_info_def logger_log_result t levelOr_def fileText_def
          readFileSync_def split: option.splits)
  from a b c show "case stopMonitoring lg this w of
           (r, this1, w1) \<Rightarrow>
             \<not> monitoring this1
             \<and> (\<forall>h. monitorInterval this = Some h \<longrightarrow> h \<notin> fst ` set (timers w1))
             \<and> emitted (newEvents w w1) = [(''INFO'', ''System monitoring stopped'')]
             \<and> fileText (logFile lg) w1 =
                 fileText (logFile lg) w
                   @ logLine (clock w (reads w)) ''INFO'' ''System monitoring stopped'' @ [LF]"
    by (simp add: s)
next
  assume "monitoring this"
  then show "startMonitoring lg interval' this w = (Inr (), this, w)"
    by (simp add: startMonitoring_def)
qed

theorem stopMonitoring_idempotent_witness:
  "(case stopMonitoring logger \<lparr>monitoring = True, monitorInterval = Some 1\<rparr>
           (exampleWorld\<lparr>timers := [(1, 3000)]\<rparr>) of
      (r, this1, w1) \<Rightarrow>
        stopMonitoring logger this1 w1 = (Inr (), this1, w1)
        \<and> \<not> monitoring this1
        \<and> 1 \<notin> fst ` set (timers w1)
        \<and> emitted (newEvents (exampleWorld\<lparr>timers := [(1, 3000)]\<rparr>) w1) =
            [(''INFO'', ''System monitoring stopped'')])
   \<and> startMonitoring logger (Some 3000) \<lparr>monitoring = True, monitorInterval = Some 1\<rparr>
        (exampleWorld\<lparr>timers := [(1, 3000)]\<rparr>) =
      (Inr (), \<lparr>monitoring = True, monitorInterval = Some 1\<rparr>,
       exampleWorld\<lparr>timers := [(1, 3000)]\<rparr>)
   \<and> stopMonitoring logger newSystemMonitor exampleWorld =
      (Inr (), newSystemMonitor, exampleWorld)"
proof -
  let ?s = "\<lparr>monitoring = True, monitorInterval = Some (1::nat)\<rparr>"
  let ?w = "exampleWorld\<lparr>timers := [(1, 3000)]\<rparr>"
  have m: "monitoring ?s" "monitorInterval ?s = Some 1" "\<not> monitoring newSystemMonitor"
    by (simp_all add: newSystemMonitor_def)
  obtain r this1 w1 where s: "stopMonitoring logger ?s ?w = (r, this1, w1)"
    by (cases "stopMonitoring logger ?s ?w")
  from stopMonitoring_idempotent [of logger ?s ?w "Some 3000"] m s
  have "stopMonitoring logger this1 w1 = (Inr (), this1, w1)" "\<not> monitoring this1"
    "1 \<notin> fst ` set (timers w1)"
    "emitted (newEvents ?w w1) = [(''INFO'', ''System monitoring stopped'')]"
    "startMonitoring logger (Some 3000) ?s ?w = (Inr (), ?s, ?w)"
    by simp_all
  moreover from stopMonitoring_idempotent [of logger newSystemMonitor exampleWorld None] m
  have "stopMonitoring logger newSystemMonitor exampleWorld =
      (Inr (), newSystemMonitor, exampleWorld)"
    by blast
  ultimately show ?thesis unfolding s by simp
qed

section \<open>Report\<close>

lemma reportText_not_sentinel: "reportText st \<noteq> ''No log data available''"
  by (simp add: reportText_def)

lemma index_before_last:
  "index xs (int (length xs) - 2) =
     (if 2 \<le> length xs then Some (xs ! (length xs - 2)) else None)"
  by (auto simp: index_def nat_diff_distrib')

text \<open>\<^const>\<open>generateReport\<close> by the number of lines of the file that are not blank.\<close>

lemma generateReport_cases:
  "generateReport lg w =
     (case readFileSync (logFile lg) w of
        None \<Rightarrow> Inr ''No log data available''
      | Some content \<Rightarrow>
          (let ls = nonBlankLines content
           in if ls = [] then Inr ''No log data available''
              else if length ls = 1 then Inl TypeError
              else Inr (reportText
                     \<lparr>totalEntries = length ls,
                      errors = length (filter (sublist ''[ERROR]'') ls),
                      warnings = length (filter (sublist ''[WARN]'') ls),
                      startTime = takeWhile (\<lambda>c. c \<noteq> CHR '' '') (hd ls),
                      endTime = takeWhile (\<lambda>c. c \<noteq> CHR '' '') (ls ! (length ls - 2))\<rparr>)))"
proof (cases "readFileSync (logFile lg) w")
  case None
  then show ?thesis by (simp add: generateReport_def)
next
  case (Some content)
  let ?ls = "nonBlankLines content"
  consider "?ls = []" | "length ?ls = 1" | "2 \<le> length ?ls"
    by (cases ?ls) (auto simp: Suc_le_eq)
  then show ?thesis
  proof cases
    case 1
    with Some show ?thesis by (simp add: generateReport_def nonBlankLines_def)
  next
    case 2
    then have "?ls \<noteq> []" by auto
    moreover from 2 have "index ?ls (int (length ?ls) - 2) = None"
      by (simp add: index_def)
    moreover from 2
    have "(if length ?ls = 1 then Inl TypeError else r) = Inl TypeError" for r :: "exn + string"
      by simp
    ultimately show ?thesis using Some
      by (simp add: generateReport_def nonBlankLines_def [symmetric] Let_def)
  next
    case 3
    then have "?ls \<noteq> []" "length ?ls \<noteq> 1" by auto
    moreover from \<open>?ls \<noteq> []\<close> have "?ls ! 0 = hd ?ls" by (simp add: hd_conv_nth)
    moreover have "(\<lambda>line. includes_str line p) = sublist p" for p
      by (rule ext) (simp add: includes_str_sublist)
    ultimately show ?thesis using 3 Some
      by (simp add: generateReport_def nonBlankLines_def [symmetric] index_before_last Let_def
            hd_split_str)
  qed
qed

text \<open>
  Claim C5. \<^const>\<open>generateReport\<close> returns the text \<^verbatim>\<open>No log data available\<close> if and only if
  the log file does not exist or has no line that is not blank. That result is a normal
  return, not an error, and it is not a report block: no report text equals it.
\<close>

theorem generateReport_no_data:
  "(generateReport lg w = Inr ''No log data available'' \<longleftrightarrow>
      readFileSync (logFile lg) w = None
      \<or> (\<exists>content. readFileSync (logFile lg) w = Some content \<and> nonBlankLines content = []))
   \<and> (\<forall>st. ''No log data available'' \<noteq> reportText st)"
proof -
  have "''No log data available'' \<noteq> reportText st" for st
    using reportText_not_sentinel [of st] by metis
  then show ?thesis
    by (cases "readFileSync (logFile lg) w")
       (auto simp: generateReport_cases Let_def reportText_not_sentinel)
qed

theorem generateReport_no_data_witness:
  "generateReport logger exampleWorld = Inr ''No log data available''
   \<and> generateReport logger (exampleWorld\<lparr>files := [logFile logger \<mapsto> ''  '' @ [LF, LF]]\<rparr>)
       = Inr ''No log data available''
   \<and> generateReport logger
       (exampleWorld\<lparr>files := [logFile logger \<mapsto> ''a b'' @ [LF] @ ''c d'' @ [LF]]\<rparr>)
       \<noteq> Inr ''No log data available''"
proof -
  let ?w1 = "exampleWorld\<lparr>files := [logFile logger \<mapsto> ''  '' @ [LF, LF]]\<rparr>"
  let ?w2 = "exampleWorld\<lparr>files := [logFile logger \<mapsto> ''a b'' @ [LF] @ ''c d'' @ [LF]]\<rparr>"
  have a: "readFileSync (logFile logger) exampleWorld = None"
    by (simp add: readFileSync_def exampleWorld_def)
  have b: "readFileSync (logFile logger) ?w1 = Some (''  '' @ [LF, LF])"
    "readFileSync (logFile logger) ?w2 = Some (''a b'' @ [LF] @ ''c d'' @ [LF])"
    by (simp_all add: readFileSync_def)
  have c: "nonBlankLines (''  '' @ [LF, LF]) = []"
    "nonBlankLines (''a b'' @ [LF] @ ''c d'' @ [LF]) \<noteq> []"
    by code_simp+
  from generateReport_no_data [of logger exampleWorld] a
  have "generateReport logger exampleWorld = Inr ''No log data available''" by simp
  moreover from generateReport_no_data [of logger ?w1] b(1) c(1)
  have "generateReport logger ?w1 = Inr ''No log data available''" by simp
  moreover from generateReport_no_data [of logger ?w2] b(2) c(2)
  have "generateReport logger ?w2 \<noteq> Inr ''No log data available''" by simp
  ultimately show ?thesis by (rule conjI [OF _ conjI])
qed

text \<open>
  Claim C10. For a log file with exactly one line that is not blank, \<^const>\<open>generateReport\<close>
  returns neither a report nor the text for no data: the index \<open>length - 2\<close> is outside
  the list of lines, and it fails with a TypeError. For an existing file it returns a
  result exactly when the file has no such line or at least two.
\<close>

theorem generateReport_single_line:
  assumes "readFileSync (logFile lg) w = Some content"
  shows "(length (nonBlankLines content) = 1 \<longrightarrow>
            index (nonBlankLines content) (int (length (nonBlankLines content)) - 2) = None
            \<and> generateReport lg w = Inl TypeError)
       \<and> ((\<exists>r. generateReport lg w = Inr r) \<longleftrightarrow>
            length (nonBlankLines content) = 0 \<or> 2 \<le> length (nonBlankLines content))"
proof -
  have "length (nonBlankLines content) = 0 \<or> length (nonBlankLines content) = 1
      \<or> 2 \<le> length (nonBlankLines content)" by arith
  with assms show ?thesis by (auto simp: generateReport_cases Let_def index_def)
qed

theorem generateReport_single_line_witness:
  "length (nonBlankLines (''2024-01-01T12:00:00.000Z [INFO] hello'' @ [LF])) = 1
   \<and> generateReport logger
       (exampleWorld\<lparr>files := [logFile logger \<mapsto> ''2024-01-01T12:00:00.000Z [INFO] hello'' @ [LF]]\<rparr>)
     = Inl TypeError"
proof -
  let ?c = "''2024-01-01T12:00:00.000Z [INFO] hello'' @ [LF]"
  let ?w = "exampleWorld\<lparr>files := [logFile logger \<mapsto> ?c]\<rparr>"
  have r: "readFileSync (logFile logger) ?w = Some ?c" by (simp add: readFileSync_def)
  have l: "length (nonBlankLines ?c) = 1" by code_simp
  from generateReport_single_line [OF r] l have "generateReport logger ?w = Inl TypeError"
    by blast
  with l show ?thesis by (rule conjI)
qed

text \<open>
  Claim C2, as amended. For a log file with at least two lines that are not blank,
  \<^const>\<open>generateReport\<close> returns the report block with exactly these five values: the number
  of these lines, the number of them that contain \<^verbatim>\<open>[ERROR]\<close>, the number of them that
  contain \<^verbatim>\<open>[WARN]\<close>, and as start and end time what stands before the first space
  character of the first such line and of the one before the last (the whole line when it
  has no space).
\<close>

theorem generateReport_stats:
  assumes "readFileSync (logFile lg) w = Some content"
    and "2 \<le> length (nonBlankLines content)"
  shows "generateReport lg w =
     Inr (reportText
       \<lparr>totalEntries = length (nonBlankLines content),
        errors = length (filter (sublist ''[ERROR]'') (nonBlankLines content)),
        warnings = length (filter (sublist ''[WARN]'') (nonBlankLines content)),
        startTime = takeWhile (\<lambda>c. c \<noteq> CHR '' '') (hd (nonBlankLines content)),
        endTime = takeWhile (\<lambda>c. c \<noteq> CHR '' '')
                    (nonBlankLines content ! (length (nonBlankLines content) - 2))\<rparr>)"
proof -
  from assms(2) have "nonBlankLines content \<noteq> []" "length (nonBlankLines content) \<noteq> 1" by auto
  with assms(1) show ?thesis by (simp add: generateReport_cases Let_def)
qed

text \<open>
  For a line that starts with a token without white space followed by a space, as every
  line the logger writes starts with its timestamp, what stands before the first space is
  the first token delimited by white space.
\<close>

lemma firstToken_before_space:
  assumes "t \<noteq> []" and "\<forall>c\<in>set t. \<not> isSpace c"
  shows "takeWhile (\<lambda>c. c \<noteq> CHR '' '') (t @ CHR '' '' # rest) = firstToken (t @ CHR '' '' # rest)"
proof -
  from assms(2) have ns: "\<forall>c\<in>set t. c \<noteq> CHR '' ''" by (auto simp: isSpace_def)
  then have l: "takeWhile (\<lambda>c. c \<noteq> CHR '' '') (t @ CHR '' '' # rest) = t"
    by (simp add: takeWhile_append2)
  from assms obtain a t' where t: "t = a # t'" "\<not> isSpace a" by (cases t) auto
  then have "dropWhile isSpace (t @ CHR '' '' # rest) = t @ CHR '' '' # rest" by simp
  moreover have "takeWhile (\<lambda>c. \<not> isSpace c) (t @ CHR '' '' # rest) = t"
    using assms(2) by (simp add: takeWhile_append2 isSpace_def)
  ultimately show ?thesis using l by (simp add: firstToken_def)
qed

theorem generateReport_stats_witness:
  "generateReport logger
     (exampleWorld\<lparr>files := [logFile logger \<mapsto>
        ''t1 [INFO] a'' @ [LF] @ ''t2 [ERROR] b'' @ [LF] @ ''t3 [WARN] c'' @ [LF]]\<rparr>) =
   Inr (reportText \<lparr>totalEntries = 3, errors = 1, warnings = 1,
          startTime = ''t1'', endTime = ''t2''\<rparr>)"
proof -
  let ?c = "''t1 [INFO] a'' @ [LF] @ ''t2 [ERROR] b'' @ [LF] @ ''t3 [WARN] c'' @ [LF]"
  let ?w = "exampleWorld\<lparr>files := [logFile logger \<mapsto> ?c]\<rparr>"
  have r: "readFileSync (logFile logger) ?w = Some ?c" by (simp add: readFileSync_def)
  have l: "nonBlankLines ?c = [''t1 [INFO] a'', ''t2 [ERROR] b'', ''t3 [WARN] c'']" by code_simp
  then have n: "2 \<le> length (nonBlankLines ?c)" by simp
  have s: "sublist ''[ERROR]'' ''t2 [ERROR] b''" "\<not> sublist ''[ERROR]'' ''t1 [INFO] a''"
    "\<not> sublist ''[ERROR]'' ''t3 [WARN] c''" "sublist ''[WARN]'' ''t3 [WARN] c''"
    "\<not> sublist ''[WARN]'' ''t1 [INFO] a''" "\<not> sublist ''[WARN]'' ''t2 [ERROR] b''"
    unfolding includes_str_sublist [symmetric] by simp_all
  note t = generateReport_stats [OF r n, unfolded l]
  from t show ?thesis by (simp add: s numeral_3_eq_3)
qed

text \<open>
  The claim as it was stated, for every file with at least one line that is not blank
  and with the first token delimited by white space, fails twice: a file of one line
  gives a TypeError, not a report; and for a first line with a tab before its first
  space the start time of the report is not the first token.
\<close>

theorem generateReport_stats_counterexample:
  "generateReport logger (exampleWorld\<lparr>files := [logFile logger \<mapsto> ''a b'' @ [LF]]\<rparr>)
     = Inl TypeError
   \<and> generateReport logger
       (exampleWorld\<lparr>files := [logFile logger \<mapsto>
          ''a'' @ [CHR 0x09] @ ''b c'' @ [LF] @ ''d e'' @ [LF]]\<rparr>)
     = Inr (reportText \<lparr>totalEntries = 2, errors = 0, warnings = 0,
              startTime = ''a'' @ [CHR 0x09] @ ''b'', endTime = ''a'' @ [CHR 0x09] @ ''b''\<rparr>)
   \<and> firstToken (''a'' @ [CHR 0x09] @ ''b c'') = ''a''"
  by code_simp

end
